theory Spec2Isabelle
  imports Main
begin

section \<open>The account manager of the WhatsApp relay backend\<close>

text \<open>
  A shallow embedding of \<^verbatim>\<open>class AccountManager\<close> (accountManager.js) and of the
  readiness check of the single-account \<^verbatim>\<open>class WhatsAppClient\<close> (client.js).

  The manager object is a record that every method takes and returns.  A method that can
  throw returns \<open>(error + value) \<times> manager\<close>: JavaScript keeps the mutations made before a
  \<^verbatim>\<open>throw\<close>, so the state is returned next to the error.  What the methods read from
  outside the manager (the clock, the random suffix of a new id, what a client object
  answers) is an argument.

  The manager runs on one thread.  A method or handler is one step of the model, run to
  its end; where the code waits on a timer, the step ends there and what follows the wait
  is a pending timer of the manager, which a later step fires: the ten seconds of the
  \<^verbatim>\<open>ready\<close> handler, and every \<^verbatim>\<open>setTimeout\<close> of \<^verbatim>\<open>checkAndSetReady\<close>.  The
  model fixes no order between pending timers and events.  The two waits of
  \<^verbatim>\<open>initializeAccount\<close> on the library are open: the events and timers that run
  during them are arguments.  Beside the fields of the
  class, the record keeps the files on disk, the events emitted, the calls made on client
  objects, and which client was wired to which account id.
\<close>

subsection \<open>JavaScript values and the insertion-ordered Map\<close>

text \<open>A string, or a nullable string, in a boolean position: the empty string, \<^verbatim>\<open>null\<close>
  and \<^verbatim>\<open>undefined\<close> are falsy.\<close>

definition truthy :: "string option \<Rightarrow> bool" where
  "truthy v = (case v of None \<Rightarrow> False | Some x \<Rightarrow> x \<noteq> [])"

text \<open>\<^verbatim>\<open>v || null\<close> on a nullable string.\<close>

definition or_null :: "string option \<Rightarrow> string option" where
  "or_null v = (if truthy v then v else None)"

text \<open>A JavaScript \<^verbatim>\<open>Map\<close> with string keys iterates in insertion order, and
  \<^verbatim>\<open>set\<close> on a key that is present replaces the value where it stands.  It is an
  association list.\<close>

fun Map_set :: "string \<Rightarrow> 'v \<Rightarrow> (string \<times> 'v) list \<Rightarrow> (string \<times> 'v) list" where
  "Map_set k v [] = [(k, v)]"
| "Map_set k v ((k', v') # m) = (if k' = k then (k, v) # m else (k', v') # Map_set k v m)"

fun Map_get :: "(string \<times> 'v) list \<Rightarrow> string \<Rightarrow> 'v option" where
  "Map_get [] k = None"
| "Map_get ((k', v') # m) k = (if k' = k then Some v' else Map_get m k)"

definition Map_delete :: "string \<Rightarrow> (string \<times> 'v) list \<Rightarrow> (string \<times> 'v) list" where
  "Map_delete k m = filter (\<lambda>e. fst e \<noteq> k) m"

text \<open>\<^verbatim>\<open>m.keys().next().value\<close>: the first key, \<^verbatim>\<open>undefined\<close> on an empty Map.\<close>

definition Map_first_key :: "(string \<times> 'v) list \<Rightarrow> string option" where
  "Map_first_key m = (case m of [] \<Rightarrow> None | e # _ \<Rightarrow> Some (fst e))"

text \<open>The decimal digits of a number, as template strings and \<^verbatim>\<open>+\<close> print it.\<close>

definition digit :: "nat \<Rightarrow> char" where
  "digit d = char_of (48 + d)"

fun show_nat :: "nat \<Rightarrow> string" where
  "show_nat n = (if n < 10 then [digit n] else show_nat (n div 10) @ [digit (n mod 10)])"

declare show_nat.simps [simp del]

subsection \<open>Data\<close>

text \<open>A client object of the automation library is known by the order of its
  construction.\<close>

type_synonym handle = nat

text \<open>An entry of \<^verbatim>\<open>this.accounts\<close>.  \<open>acct_id\<close> is the field \<^verbatim>\<open>id\<close>;
  \<open>hasStoredSession\<close> is \<^verbatim>\<open>undefined\<close>, so falsy, on an account made by
  \<^verbatim>\<open>createAccount\<close>.\<close>

record account =
  acct_id :: string
  name :: string
  phone :: "string option"
  createdAt :: nat
  client :: "handle option"
  isReady :: bool
  isAuthenticated :: bool
  isInitializing :: bool
  qrCode :: "string option"
  hasStoredSession :: bool

text \<open>What \<^verbatim>\<open>saveAccountsConfig\<close> writes for one account, and the whole of
  \<^verbatim>\<open>data/accounts.json\<close>.\<close>

record saved_account =
  cfg_id :: string
  cfg_name :: string
  cfg_phone :: "string option"
  cfg_createdAt :: nat

record config =
  cfg_activeAccountId :: "string option"
  cfg_accounts :: "saved_account list"

text \<open>A record of the ledger of deleted messages, as the handler of
  \<^verbatim>\<open>message_revoke_everyone\<close> builds it.\<close>

record deleted_message =
  msg_id :: string
  chatId :: string
  body :: string
  timestamp :: nat
  fromMe :: bool
  author :: "string option"
  msg_type :: string
  hasMedia :: bool
  deletedAt :: nat
  originalType :: string
  accountId :: string

text \<open>A chat object of the library is opaque to the manager; it stands for itself.  What
  \<^verbatim>\<open>client.getChats()\<close> resolves to is tested by the code with
  \<^verbatim>\<open>chats && Array.isArray(chats)\<close>: a falsy value, a truthy value that is no array,
  or an array.\<close>

type_synonym chat = string

datatype chats_val = Falsy | NotArray | Chats "chat list"

fun is_truthy :: "chats_val \<Rightarrow> bool" where
  "is_truthy Falsy = False"
| "is_truthy NotArray = True"
| "is_truthy (Chats cs) = True"

fun is_array :: "chats_val \<Rightarrow> bool" where
  "is_array (Chats cs) = True"
| "is_array v = False"

text \<open>What a client object answers when the manager looks at it: \<^verbatim>\<open>client.pupPage\<close>
  with \<^verbatim>\<open>isClosed()\<close>, \<^verbatim>\<open>typeof client.getChats\<close>, \<^verbatim>\<open>client.info\<close>, and the
  outcome of \<^verbatim>\<open>await client.getChats()\<close>.\<close>

datatype page = PageAbsent | PageOpen | PageClosed | PageThrows

datatype info = InfoThrows | InfoAbsent | InfoWid string

datatype fetch = FetchThrows | FetchReturns chats_val

record client_view =
  pupPage :: page
  hasGetChats :: bool
  info :: info
  fetch :: fetch

datatype error = CapacityExceeded | NotFound | InitializationFailed | RemoveFailed

datatype event =
    AccountCreated string string
  | AccountDeleted string
  | AccountSwitched string
  | Qr string string
  | Authenticated string
  | Ready string
  | AuthFailure string
  | Disconnected string
  | Message string
  | MessageSent string
  | MessageRevoked string
  | Loading string nat

text \<open>The calls made on client objects and on the directory of credentials.\<close>

datatype call = Construct handle | Initialize handle | Logout handle | Destroy handle
  | GetChats handle | RemoveAuth string

text \<open>A callback waiting in \<^verbatim>\<open>setTimeout\<close>: the rest of the \<^verbatim>\<open>ready\<close> handler after
  its delay, or \<^verbatim>\<open>checkAndSetReady(accountId, retryCount)\<close>; \<open>LoadingCheck\<close> is the
  callback of the \<^verbatim>\<open>loading_screen\<close> handler.\<close>

datatype timer = ReadySettle string | CheckReady string nat | LoadingCheck string

record manager =
  accounts :: "(string \<times> account) list"
  activeAccountId :: "string option"
  deletedMessages :: "(string \<times> deleted_message) list"
  chatsCache :: chats_val
  chatsCacheTime :: nat
  configFile :: "config option"
  deletedMessagesFile :: "(string \<times> deleted_message) list option"
  diskWritable :: bool
  emitted :: "event list"
  calls :: "call list"
  timers :: "(nat \<times> timer) list"
  wired :: "(handle \<times> string) list"

definition maxAccounts :: nat where
  "maxAccounts = 10"

definition chatsCacheDuration :: int where
  "chatsCacheDuration = 3000"

definition emit :: "event \<Rightarrow> manager \<Rightarrow> manager" where
  "emit e s = s\<lparr>emitted := emitted s @ [e]\<rparr>"

definition call_out :: "call \<Rightarrow> manager \<Rightarrow> manager" where
  "call_out c s = s\<lparr>calls := calls s @ [c]\<rparr>"

text \<open>\<^verbatim>\<open>setTimeout(callback, delay)\<close>.\<close>

definition setTimeout :: "timer \<Rightarrow> nat \<Rightarrow> manager \<Rightarrow> manager" where
  "setTimeout t delay s = s\<lparr>timers := timers s @ [(delay, t)]\<rparr>"

text \<open>A mutation of the account object stored under a key.  The handlers hold the object
  itself; once the account is deleted their writes reach nothing the manager can see.\<close>

definition update_account :: "string \<Rightarrow> (account \<Rightarrow> account) \<Rightarrow> manager \<Rightarrow> manager" where
  "update_account k f s =
     s\<lparr>accounts := map (\<lambda>e. if fst e = k then (fst e, f (snd e)) else e) (accounts s)\<rparr>"

subsection \<open>The ledger of deleted messages\<close>

definition saveDeletedMessages :: "manager \<Rightarrow> manager" where
  "saveDeletedMessages s =
     (if diskWritable s then s\<lparr>deletedMessagesFile := Some (deletedMessages s)\<rparr> else s)"

definition saveDeletedMessage :: "deleted_message \<Rightarrow> manager \<Rightarrow> manager" where
  "saveDeletedMessage messageData s =
     saveDeletedMessages
       (s\<lparr>deletedMessages := Map_set (msg_id messageData) messageData (deletedMessages s)\<rparr>)"

definition getDeletedMessagesForChat :: "manager \<Rightarrow> string \<Rightarrow> deleted_message list" where
  "getDeletedMessagesForChat s c =
     foldl (\<lambda>result e. if chatId (snd e) = c then result @ [snd e] else result)
       [] (deletedMessages s)"

subsection \<open>The account store\<close>

text \<open>The arrow function of \<^verbatim>\<open>saveAccountsConfig\<close>, which keeps four fields of an
  account, and the object that is written.  An error of \<^verbatim>\<open>writeFileSync\<close> is caught and
  logged.\<close>

definition to_saved :: "account \<Rightarrow> saved_account" where
  "to_saved acc =
     \<lparr>cfg_id = acct_id acc, cfg_name = name acc, cfg_phone = phone acc,
      cfg_createdAt = createdAt acc\<rparr>"

definition config_of :: "manager \<Rightarrow> config" where
  "config_of s =
     \<lparr>cfg_activeAccountId = activeAccountId s,
      cfg_accounts = map (\<lambda>e. to_saved (snd e)) (accounts s)\<rparr>"

definition saveAccountsConfig :: "manager \<Rightarrow> manager" where
  "saveAccountsConfig s = (if diskWritable s then s\<lparr>configFile := Some (config_of s)\<rparr> else s)"

text \<open>The entry \<^verbatim>\<open>loadAccountsConfig\<close> makes for one saved account; \<open>hasSession\<close> is
  \<^verbatim>\<open>fs.existsSync(sessionPath)\<close>.\<close>

definition loaded_account :: "bool \<Rightarrow> saved_account \<Rightarrow> account" where
  "loaded_account hasSession acc =
     \<lparr>acct_id = cfg_id acc, name = cfg_name acc, phone = or_null (cfg_phone acc),
      createdAt = cfg_createdAt acc, client = None, isReady = False,
      isAuthenticated = False, isInitializing = False, qrCode = None,
      hasStoredSession = hasSession\<rparr>"

definition loadAccountsConfig :: "(string \<Rightarrow> bool) \<Rightarrow> manager \<Rightarrow> manager" where
  "loadAccountsConfig sessionExists s =
     (case configFile s of
        None \<Rightarrow> s
      | Some data \<Rightarrow>
          foldl (\<lambda>st acc. st\<lparr>accounts :=
                    Map_set (cfg_id acc) (loaded_account (sessionExists (cfg_id acc)) acc)
                      (accounts st)\<rparr>)
            (s\<lparr>activeAccountId := or_null (cfg_activeAccountId data)\<rparr>)
            (cfg_accounts data))"

definition loadDeletedMessages :: "manager \<Rightarrow> manager" where
  "loadDeletedMessages s =
     (case deletedMessagesFile s of
        None \<Rightarrow> s
      | Some data \<Rightarrow> s\<lparr>deletedMessages := data\<rparr>)"

text \<open>The constructor, given what is on disk.\<close>

definition new_manager ::
  "config option \<Rightarrow> (string \<times> deleted_message) list option \<Rightarrow> bool \<Rightarrow> (string \<Rightarrow> bool)
     \<Rightarrow> manager" where
  "new_manager cfg ledger writable sessionExists =
     loadDeletedMessages (loadAccountsConfig sessionExists
       \<lparr>accounts = [], activeAccountId = None, deletedMessages = [],
        chatsCache = Falsy, chatsCacheTime = 0, configFile = cfg,
        deletedMessagesFile = ledger, diskWritable = writable, emitted = [], calls = [],
        timers = [], wired = []\<rparr>)"

text \<open>\<^verbatim>\<open>'acc_' + Date.now() + '_' + Math.random().toString(36).substr(2, 9)\<close>; the
  random suffix is an argument.\<close>

definition generateAccountId :: "nat \<Rightarrow> string \<Rightarrow> string" where
  "generateAccountId now rnd = ''acc_'' @ show_nat now @ ''_'' @ rnd"

text \<open>\<^verbatim>\<open>Date.now()\<close> is read for the id and again for \<^verbatim>\<open>createdAt\<close>; the two
  readings are taken to agree.\<close>

definition createAccount ::
  "string option \<Rightarrow> nat \<Rightarrow> string \<Rightarrow> manager \<Rightarrow> (error + account) \<times> manager" where
  "createAccount nm now rnd s =
     (if length (accounts s) \<ge> maxAccounts then (Inl CapacityExceeded, s)
      else
        let i = generateAccountId now rnd;
            acc = \<lparr>acct_id = i,
                   name = (case or_null nm of
                             Some n \<Rightarrow> n
                           | None \<Rightarrow> ''Account '' @ show_nat (length (accounts s) + 1)),
                   phone = None, createdAt = now, client = None, isReady = False,
                   isAuthenticated = False, isInitializing = False, qrCode = None,
                   hasStoredSession = False\<rparr>;
            s1 = s\<lparr>accounts := Map_set i acc (accounts s)\<rparr>;
            s2 = (if length (accounts s1) = 1 then s1\<lparr>activeAccountId := Some i\<rparr> else s1);
            s3 = saveAccountsConfig s2
        in (Inr acc, emit (AccountCreated i (name acc)) s3))"

text \<open>A run of \<^verbatim>\<open>createAccount\<close> calls, one per triple of arguments; a call that throws
  leaves the manager as it was and the run goes on.\<close>

fun createAccounts :: "(string option \<times> nat \<times> string) list \<Rightarrow> manager \<Rightarrow> manager" where
  "createAccounts [] s = s"
| "createAccounts ((nm, now, rnd) # rest) s =
     createAccounts rest (snd (createAccount nm now rnd s))"

text \<open>What \<^verbatim>\<open>deleteAccount\<close> meets outside the manager: whether \<^verbatim>\<open>logout()\<close> and
  \<^verbatim>\<open>destroy()\<close> of the client throw, whether the directory of credentials exists, and
  whether \<^verbatim>\<open>fs.rmSync\<close> throws on it (\<^verbatim>\<open>force\<close> covers a missing path only).  The
  errors of the client are caught and logged; \<^verbatim>\<open>fs.rmSync\<close> stands outside every
  \<^verbatim>\<open>try\<close> and before \<^verbatim>\<open>this.accounts.delete\<close>, so its error ends the call with the
  account and the pointer as they were.  The handlers and timers that may run while
  \<^verbatim>\<open>logout()\<close> and \<^verbatim>\<open>destroy()\<close> are pending are left out here: they write neither
  the keys of the Map nor the pointer.\<close>

record teardown =
  logoutThrows :: bool
  destroyThrows :: bool
  authPathExists :: bool
  removeThrows :: bool

definition deleteAccount :: "string \<Rightarrow> teardown \<Rightarrow> manager \<Rightarrow> (error + unit) \<times> manager" where
  "deleteAccount k env s =
     (case Map_get (accounts s) k of
        None \<Rightarrow> (Inl NotFound, s)
      | Some acc \<Rightarrow>
          let s1 = (case client acc of
                      None \<Rightarrow> s
                    | Some h \<Rightarrow>
                        if logoutThrows env then call_out (Logout h) s
                        else call_out (Destroy h) (call_out (Logout h) s));
              s2 = (if authPathExists env then call_out (RemoveAuth k) s1 else s1)
          in if authPathExists env \<and> removeThrows env then (Inl RemoveFailed, s2)
             else
               let s3 = s2\<lparr>accounts := Map_delete k (accounts s2)\<rparr>;
                   s4 = (if activeAccountId s3 = Some k
                         then s3\<lparr>activeAccountId := or_null (Map_first_key (accounts s3))\<rparr>
                         else s3);
                   s5 = saveAccountsConfig s4
               in (Inr (), emit (AccountDeleted k) s5))"

text \<open>\<^verbatim>\<open>isActive\<close> as \<^verbatim>\<open>getAllAccounts\<close> and \<^verbatim>\<open>getAccountStatus\<close> compute it.\<close>

definition isActive :: "manager \<Rightarrow> account \<Rightarrow> bool" where
  "isActive s acc = (activeAccountId s = Some (acct_id acc))"

definition active_accounts :: "manager \<Rightarrow> account list" where
  "active_accounts s = filter (isActive s) (map snd (accounts s))"

text \<open>What holds of the Map of accounts by construction: keys are distinct, an entry is
  stored under its own id, and ids are not empty (they start with \<^verbatim>\<open>acc_\<close>).\<close>

definition accounts_ok :: "manager \<Rightarrow> bool" where
  "accounts_ok s =
     (distinct (map fst (accounts s)) \<and>
      list_all (\<lambda>e. acct_id (snd e) = fst e \<and> fst e \<noteq> []) (accounts s))"

subsection \<open>Readiness\<close>

definition maxRetries :: nat where
  "maxRetries = 60"

text \<open>\<^verbatim>\<open>if (retryCount < maxRetries) setTimeout(() => this.checkAndSetReady(accountId,
  retryCount + 1), 5000)\<close>, as every failing branch of \<^verbatim>\<open>checkAndSetReady\<close> has it.\<close>

definition reschedule :: "string \<Rightarrow> nat \<Rightarrow> manager \<Rightarrow> manager" where
  "reschedule k retryCount s =
     (if retryCount < maxRetries then setTimeout (CheckReady k (retryCount + 1)) 5000 s else s)"

definition mark_ready :: "string \<Rightarrow> manager \<Rightarrow> manager" where
  "mark_ready k s =
     emit (Ready k) (update_account k (\<lambda>a. a\<lparr>isReady := True, isInitializing := False\<rparr>) s)"

text \<open>One pass of \<^verbatim>\<open>checkAndSetReady(accountId, retryCount)\<close>; \<open>view\<close> is what the
  client objects answer during the pass.\<close>

definition checkAndSetReady ::
  "string \<Rightarrow> nat \<Rightarrow> (handle \<Rightarrow> client_view) \<Rightarrow> manager \<Rightarrow> manager" where
  "checkAndSetReady k retryCount view s =
     (case Map_get (accounts s) k of
        None \<Rightarrow> s
      | Some acc \<Rightarrow>
          if isReady acc then s
          else
            (case client acc of
               None \<Rightarrow> reschedule k retryCount s
             | Some h \<Rightarrow>
                 (case pupPage (view h) of
                    PageAbsent \<Rightarrow> reschedule k retryCount s
                  | PageClosed \<Rightarrow> reschedule k retryCount s
                  | PageThrows \<Rightarrow> reschedule k retryCount s
                  | PageOpen \<Rightarrow>
                      if \<not> hasGetChats (view h) then reschedule k retryCount s
                      else
                        let s1 = call_out (GetChats h) s
                        in (case fetch (view h) of
                              FetchThrows \<Rightarrow> reschedule k retryCount s1
                            | FetchReturns testChats \<Rightarrow>
                                if is_truthy testChats \<and> is_array testChats
                                then (case info (view h) of
                                        InfoThrows \<Rightarrow> reschedule k retryCount s1
                                      | InfoAbsent \<Rightarrow> mark_ready k s1
                                      | InfoWid user \<Rightarrow>
                                          mark_ready k (saveAccountsConfig
                                            (update_account k (\<lambda>a. a\<lparr>phone := Some user\<rparr>) s1)))
                                else reschedule k retryCount s1))))"

text \<open>The retry loop that the timers of \<^verbatim>\<open>checkAndSetReady\<close> drive, taken alone: as
  long as a pass has set its timer, the timer fires and the next pass runs; \<open>views n\<close> is
  what the client objects answer during pass \<open>n\<close>.\<close>

function run_checks ::
  "string \<Rightarrow> nat \<Rightarrow> (nat \<Rightarrow> handle \<Rightarrow> client_view) \<Rightarrow> manager \<Rightarrow> manager" where
  "run_checks k n views s =
     (let s' = checkAndSetReady k n (views n) s
      in if timers s' = timers s @ [(5000, CheckReady k (n + 1))]
         then run_checks k (n + 1) views (s'\<lparr>timers := timers s\<rparr>)
         else s')"
  by pat_completeness auto


lemma checkAndSetReady_timers:
  "timers (checkAndSetReady k n view s) = timers s \<or>
   (n < maxRetries \<and>
    timers (checkAndSetReady k n view s) = timers s @ [(5000, CheckReady k (n + 1))])"
  by (auto simp: checkAndSetReady_def reschedule_def setTimeout_def mark_ready_def emit_def
      call_out_def update_account_def saveAccountsConfig_def Let_def
      split: option.splits page.splits fetch.splits info.splits)

termination run_checks
proof (relation "measure (\<lambda>(k, n, views, s). Suc maxRetries - n)", goal_cases)
  case 1
  show ?case by simp
next
  case (2 k n views s s')
  then show ?case using checkAndSetReady_timers [of k n "views n" s] by auto
qed

declare run_checks.simps [simp del]

subsection \<open>The handlers wired to a client\<close>

text \<open>The message of a \<^verbatim>\<open>message_revoke_everyone\<close> event that was revoked, when the
  library still has it.\<close>

record revoked =
  rv_id :: string
  rv_body :: string
  rv_timestamp :: nat
  rv_fromMe :: bool
  rv_author :: "string option"
  rv_hasMedia :: bool
  rv_type :: string

text \<open>The events of a client object.  \<open>EvReady\<close> is the \<^verbatim>\<open>ready\<close> signal of the
  library; \<open>EvRevoke\<close> carries \<^verbatim>\<open>message.from\<close>, \<^verbatim>\<open>message.to\<close>, the revoked
  message and the clock.\<close>

datatype client_event =
    EvQr string
  | EvLoadingScreen nat
  | EvReady
  | EvAuthenticated
  | EvAuthFailure
  | EvDisconnected
  | EvMessage
  | EvMessageCreate bool
  | EvRevoke string string "revoked option" nat

definition on_qr :: "string \<Rightarrow> string \<Rightarrow> manager \<Rightarrow> manager" where
  "on_qr k qr s = emit (Qr k qr) (update_account k (\<lambda>a. a\<lparr>qrCode := Some qr\<rparr>) s)"

definition on_loading_screen :: "string \<Rightarrow> account \<Rightarrow> nat \<Rightarrow> manager \<Rightarrow> manager" where
  "on_loading_screen k acc percent s =
     (let s1 = emit (Loading k percent) s
      in if percent \<ge> 99 \<and> isAuthenticated acc \<and> \<not> isReady acc
         then setTimeout (LoadingCheck k) 15000 s1 else s1)"

text \<open>The \<^verbatim>\<open>ready\<close> handler up to its \<^verbatim>\<open>await\<close> of ten seconds; the rest of it is the
  timer \<open>ReadySettle\<close>.\<close>

definition on_ready :: "string \<Rightarrow> client_view \<Rightarrow> manager \<Rightarrow> manager" where
  "on_ready k v s =
     (let s1 = update_account k (\<lambda>a. a\<lparr>isAuthenticated := True, qrCode := None\<rparr>) s;
          s2 = (case info v of
                  InfoWid user \<Rightarrow>
                    saveAccountsConfig (update_account k (\<lambda>a. a\<lparr>phone := Some user\<rparr>) s1)
                | InfoAbsent \<Rightarrow> s1
                | InfoThrows \<Rightarrow> s1)
      in setTimeout (ReadySettle k) 10000 s2)"

definition on_authenticated :: "string \<Rightarrow> manager \<Rightarrow> manager" where
  "on_authenticated k s =
     setTimeout (CheckReady k 0) 20000
       (emit (Authenticated k) (update_account k (\<lambda>a. a\<lparr>isAuthenticated := True\<rparr>) s))"

definition on_auth_failure :: "string \<Rightarrow> manager \<Rightarrow> manager" where
  "on_auth_failure k s =
     emit (AuthFailure k)
       (update_account k (\<lambda>a. a\<lparr>isAuthenticated := False, isInitializing := False\<rparr>) s)"

definition on_disconnected :: "string \<Rightarrow> manager \<Rightarrow> manager" where
  "on_disconnected k s =
     emit (Disconnected k)
       (update_account k (\<lambda>a. a\<lparr>isReady := False, isAuthenticated := False\<rparr>) s)"

definition on_message :: "string \<Rightarrow> account \<Rightarrow> client_view \<Rightarrow> manager \<Rightarrow> manager" where
  "on_message k acc v s =
     (let s1 = (if \<not> isReady acc \<and> isAuthenticated acc
                then
                  let s2 = update_account k (\<lambda>a. a\<lparr>isReady := True, isInitializing := False\<rparr>) s;
                      s3 = (if \<not> truthy (phone acc)
                            then (case info v of
                                    InfoWid user \<Rightarrow>
                                      saveAccountsConfig
                                        (update_account k (\<lambda>a. a\<lparr>phone := Some user\<rparr>) s2)
                                  | InfoAbsent \<Rightarrow> s2
                                  | InfoThrows \<Rightarrow> s2)
                            else s2)
                  in emit (Ready k) s3
                else s)
      in emit (Message k) s1)"

definition on_message_create :: "string \<Rightarrow> bool \<Rightarrow> manager \<Rightarrow> manager" where
  "on_message_create k msgFromMe s = (if msgFromMe then emit (MessageSent k) s else s)"

definition on_message_revoke_everyone ::
  "string \<Rightarrow> string \<Rightarrow> string \<Rightarrow> revoked option \<Rightarrow> nat \<Rightarrow> manager \<Rightarrow> manager" where
  "on_message_revoke_everyone k msgFrom msgTo revokedMsg now s =
     (let s1 = (case revokedMsg of
                  None \<Rightarrow> s
                | Some r \<Rightarrow>
                    saveDeletedMessage
                      \<lparr>msg_id = rv_id r,
                       chatId = (if msgFrom \<noteq> [] then msgFrom else msgTo),
                       body = (if rv_body r \<noteq> [] then rv_body r else ''[Media]''),
                       timestamp = rv_timestamp r, fromMe = rv_fromMe r,
                       author = or_null (rv_author r), msg_type = ''revoked'',
                       hasMedia = rv_hasMedia r, deletedAt = now,
                       originalType = rv_type r, accountId = k\<rparr> s)
      in emit (MessageRevoked k) s1)"

text \<open>An event of client \<open>h\<close> runs the handler that \<^verbatim>\<open>initializeAccount\<close> wired to it.
  The handlers hold the account object; what they do once the account has left the Map
  is not modelled, the manager is left as it is.\<close>

definition deliver :: "handle \<Rightarrow> client_event \<Rightarrow> client_view \<Rightarrow> manager \<Rightarrow> manager" where
  "deliver h ev v s =
     (case map_of (wired s) h of
        None \<Rightarrow> s
      | Some k \<Rightarrow>
          (case Map_get (accounts s) k of
             None \<Rightarrow> s
           | Some acc \<Rightarrow>
               (case ev of
                  EvQr qr \<Rightarrow> on_qr k qr s
                | EvLoadingScreen percent \<Rightarrow> on_loading_screen k acc percent s
                | EvReady \<Rightarrow> on_ready k v s
                | EvAuthenticated \<Rightarrow> on_authenticated k s
                | EvAuthFailure \<Rightarrow> on_auth_failure k s
                | EvDisconnected \<Rightarrow> on_disconnected k s
                | EvMessage \<Rightarrow> on_message k acc v s
                | EvMessageCreate msgFromMe \<Rightarrow> on_message_create k msgFromMe s
                | EvRevoke msgFrom msgTo revokedMsg now \<Rightarrow>
                    on_message_revoke_everyone k msgFrom msgTo revokedMsg now s)))"

text \<open>The timer at position \<open>i\<close> of the pending ones expires and its callback runs.\<close>

definition fire :: "nat \<Rightarrow> (handle \<Rightarrow> client_view) \<Rightarrow> manager \<Rightarrow> manager" where
  "fire i view s =
     (if i < length (timers s)
      then
        let t = snd (timers s ! i);
            s1 = s\<lparr>timers := take i (timers s) @ drop (Suc i) (timers s)\<rparr>
        in (case t of
              ReadySettle k \<Rightarrow> mark_ready k s1
            | CheckReady k n \<Rightarrow> checkAndSetReady k n view s1
            | LoadingCheck k \<Rightarrow>
                (case Map_get (accounts s1) k of
                   None \<Rightarrow> s1
                 | Some acc \<Rightarrow> if \<not> isReady acc then checkAndSetReady k 0 view s1 else s1))
      else s)"

subsection \<open>Sessions\<close>

text \<open>What runs on the one thread while a method waits on the library: an event of a
  client is delivered, or a pending timer expires.\<close>

datatype step = Deliver handle client_event client_view | Fire nat "handle \<Rightarrow> client_view"

fun run_steps :: "step list \<Rightarrow> manager \<Rightarrow> manager" where
  "run_steps [] s = s"
| "run_steps (Deliver h ev v # rest) s = run_steps rest (deliver h ev v s)"
| "run_steps (Fire i view # rest) s = run_steps rest (fire i view s)"

text \<open>What \<^verbatim>\<open>initializeAccount\<close> meets outside the manager: what runs while
  \<^verbatim>\<open>await account.client.destroy()\<close> of the old client is pending, whether
  \<^verbatim>\<open>new Client(...)\<close> throws, what runs while \<^verbatim>\<open>await client.initialize()\<close> is
  pending (the handlers of the new client are wired before it, the \<^verbatim>\<open>auth_failure\<close>
  handler among them), and whether that call throws in the end.  An error of
  \<^verbatim>\<open>destroy()\<close> on the old client is caught and logged.  The new client is wired to the
  account id its handlers close over.\<close>

record startup =
  whileDestroying :: "step list"
  constructThrows :: bool
  whileInitializing :: "step list"
  initializeThrows :: bool

definition initializeAccount :: "string \<Rightarrow> startup \<Rightarrow> manager \<Rightarrow> (error + unit) \<times> manager" where
  "initializeAccount k env s =
     (case Map_get (accounts s) k of
        None \<Rightarrow> (Inl NotFound, s)
      | Some acc \<Rightarrow>
          if isInitializing acc then (Inr (), s)
          else
            let s1 = update_account k (\<lambda>a. a\<lparr>isInitializing := True\<rparr>) s;
                s2 = (case client acc of
                        None \<Rightarrow> s1
                      | Some old \<Rightarrow> run_steps (whileDestroying env) (call_out (Destroy old) s1))
            in if constructThrows env
               then (Inl InitializationFailed,
                     update_account k (\<lambda>a. a\<lparr>isInitializing := False\<rparr>) s2)
               else
                 let h = length (wired s2);
                     s3 = call_out (Construct h) s2;
                     s4 = update_account k (\<lambda>a. a\<lparr>client := Some h\<rparr>) s3;
                     s5 = s4\<lparr>wired := wired s4 @ [(h, k)]\<rparr>;
                     s6 = call_out (Initialize h) s5;
                     s7 = run_steps (whileInitializing env) s6
                 in if initializeThrows env
                    then (Inl InitializationFailed,
                          update_account k (\<lambda>a. a\<lparr>isInitializing := False\<rparr>) s7)
                    else (Inr (), s7))"

text \<open>The account object \<open>acc\<close> stored under \<open>k\<close>, with the fields it has now.\<close>

definition current_account :: "string \<Rightarrow> account \<Rightarrow> manager \<Rightarrow> account" where
  "current_account k acc s = (case Map_get (accounts s) k of None \<Rightarrow> acc | Some a \<Rightarrow> a)"

text \<open>\<^verbatim>\<open>this.accounts.get(previousAccountId)\<close> is an account.\<close>

definition has_account :: "manager \<Rightarrow> string option \<Rightarrow> bool" where
  "has_account s p = (case p of None \<Rightarrow> False | Some q \<Rightarrow> Map_get (accounts s) q \<noteq> None)"

text \<open>\<^verbatim>\<open>switchAccount\<close> up to its initialization: the file is saved when another
  account was active, the pointer moves, and the file is saved.\<close>

definition activate :: "string \<Rightarrow> manager \<Rightarrow> manager" where
  "activate k s =
     (let previousAccountId = activeAccountId s;
          s1 = (if truthy previousAccountId \<and> previousAccountId \<noteq> Some k
                   \<and> has_account s previousAccountId
                then saveAccountsConfig s else s)
      in saveAccountsConfig (s1\<lparr>activeAccountId := Some k\<rparr>))"

definition switchAccount :: "string \<Rightarrow> startup \<Rightarrow> manager \<Rightarrow> (error + account) \<times> manager" where
  "switchAccount k env s =
     (case Map_get (accounts s) k of
        None \<Rightarrow> (Inl NotFound, s)
      | Some acc \<Rightarrow>
          let s2 = activate k s;
              r = (if client acc = None \<and> \<not> isInitializing acc
                   then initializeAccount k env s2
                   else if client acc \<noteq> None \<and> \<not> isReady acc \<and> \<not> isInitializing acc
                   then initializeAccount k env s2
                   else (Inr (), s2));
              s3 = snd r
          in (case fst r of
                Inl e \<Rightarrow> (Inl e, s3)
              | Inr u \<Rightarrow> (Inr (current_account k acc s3), emit (AccountSwitched k) s3)))"

text \<open>The active account object: its key in the Map and its fields.\<close>

definition getActiveAccount :: "manager \<Rightarrow> (string \<times> account) option" where
  "getActiveAccount s =
     (case or_null (activeAccountId s) of
        None \<Rightarrow> None
      | Some k \<Rightarrow> (case Map_get (accounts s) k of None \<Rightarrow> None | Some acc \<Rightarrow> Some (k, acc)))"

subsection \<open>Reading the chats of the active account\<close>

text \<open>\<^verbatim>\<open>this._chatsCache || []\<close>.\<close>

definition cache_or_empty :: "manager \<Rightarrow> chats_val" where
  "cache_or_empty s = (if is_truthy (chatsCache s) then chatsCache s else Chats [])"

definition getChats ::
  "nat \<Rightarrow> (handle \<Rightarrow> client_view) \<Rightarrow> manager \<Rightarrow> (error + chats_val) \<times> manager" where
  "getChats now view s =
     (case getActiveAccount s of
        None \<Rightarrow> (Inr (Chats []), s)
      | Some (k, acc) \<Rightarrow>
          (case client acc of
             None \<Rightarrow> (Inr (Chats []), s)
           | Some h \<Rightarrow>
               if \<not> isReady acc \<and> \<not> isAuthenticated acc then (Inr (Chats []), s)
               else if is_truthy (chatsCache s)
                       \<and> int now - int (chatsCacheTime s) < chatsCacheDuration
               then (Inr (chatsCache s), s)
               else
                 (case pupPage (view h) of
                    PageAbsent \<Rightarrow> (Inr (cache_or_empty s), s)
                  | PageClosed \<Rightarrow> (Inr (cache_or_empty s), s)
                  | PageThrows \<Rightarrow> (Inr (cache_or_empty s), s)
                  | PageOpen \<Rightarrow>
                      if \<not> hasGetChats (view h) then (Inr (cache_or_empty s), s)
                      else
                        (case info (view h) of
                           InfoThrows \<Rightarrow> (Inr (cache_or_empty s), s)
                         | InfoAbsent \<Rightarrow> (Inr (cache_or_empty s), s)
                         | InfoWid user \<Rightarrow>
                             let s1 = call_out (GetChats h) s
                             in (case fetch (view h) of
                                   FetchThrows \<Rightarrow> (Inr (cache_or_empty s1), s1)
                                 | FetchReturns chats \<Rightarrow>
                                     let s2 = s1\<lparr>chatsCache := chats, chatsCacheTime := now\<rparr>;
                                         s3 = (if is_truthy chats \<and> is_array chats
                                                  \<and> \<not> isReady acc
                                               then emit (Ready (acct_id acc))
                                                      (update_account k
                                                         (\<lambda>a. a\<lparr>isReady := True,
                                                                 isInitializing := False\<rparr>) s2)
                                               else s2)
                                     in (Inr chats, s3))))))"

subsection \<open>The readiness check of the single-account client\<close>

text \<open>\<^verbatim>\<open>class WhatsAppClient\<close> of client.js, as far as \<^verbatim>\<open>startReadinessCheck\<close> uses
  it.  \<open>wc_emitted\<close> are the names of the events emitted, \<open>wc_waits\<close> the delays waited
  for.\<close>

record whatsapp_client =
  wc_client :: bool
  wc_qrCode :: "string option"
  wc_isReady :: bool
  wc_isAuthenticated :: bool
  wc_emitted :: "string list"
  wc_waits :: "nat list"

text \<open>The outcome of the test call \<^verbatim>\<open>await this.client.getChats()\<close>: it throws with a
  message that includes \<^verbatim>\<open>reading 'update'\<close>, it throws otherwise, or it returns.\<close>

datatype probe = ProbeThrowsUpdate | ProbeThrows | ProbeReturns chats_val

definition maxAttempts :: nat where
  "maxAttempts = 10"

definition checkInterval :: nat where
  "checkInterval = 5000"

definition set_ready :: "whatsapp_client \<Rightarrow> whatsapp_client" where
  "set_ready c = c\<lparr>wc_isReady := True, wc_qrCode := None, wc_emitted := wc_emitted c @ [''ready'']\<rparr>"

text \<open>The closure \<^verbatim>\<open>verifyStores\<close> with its counter \<^verbatim>\<open>attempts\<close>; \<open>probes n\<close> is
  the outcome of the test call of attempt \<open>n\<close>.  The result is the counter and the client
  when no further call is scheduled.  Between two attempts nothing else touches the
  client.\<close>

function verifyStores ::
  "nat \<Rightarrow> (nat \<Rightarrow> probe) \<Rightarrow> whatsapp_client \<Rightarrow> nat \<times> whatsapp_client" where
  "verifyStores attempts probes c =
     (if wc_isReady c then (attempts, c)
      else if \<not> wc_client c \<or> \<not> wc_isAuthenticated c then (attempts, c)
      else
        (case probes (attempts + 1) of
           ProbeReturns testChats \<Rightarrow>
             if is_truthy testChats \<and> is_array testChats then (attempts + 1, set_ready c)
             else if attempts + 1 < maxAttempts
             then verifyStores (attempts + 1) probes (c\<lparr>wc_waits := wc_waits c @ [checkInterval]\<rparr>)
             else (attempts + 1, set_ready c)
         | ProbeThrowsUpdate \<Rightarrow>
             if attempts + 1 < maxAttempts
             then verifyStores (attempts + 1) probes (c\<lparr>wc_waits := wc_waits c @ [checkInterval]\<rparr>)
             else (attempts + 1, set_ready c)
         | ProbeThrows \<Rightarrow>
             if attempts + 1 < maxAttempts
             then verifyStores (attempts + 1) probes (c\<lparr>wc_waits := wc_waits c @ [checkInterval]\<rparr>)
             else (attempts + 1, set_ready c)))"
  by pat_completeness auto
termination
  by (relation "measure (\<lambda>(attempts, probes, c). maxAttempts - attempts)") auto

declare verifyStores.simps [simp del]

definition startReadinessCheck :: "(nat \<Rightarrow> probe) \<Rightarrow> whatsapp_client \<Rightarrow> nat \<times> whatsapp_client" where
  "startReadinessCheck probes c = verifyStores 0 probes (c\<lparr>wc_waits := wc_waits c @ [15000]\<rparr>)"

subsection \<open>Vocabulary of the properties\<close>

text \<open>No phone and no pointer to the active account is the empty string: ids start
  with \<^verbatim>\<open>acc_\<close> and phones are the \<^verbatim>\<open>wid.user\<close> of the library.\<close>

definition strings_ok :: "manager \<Rightarrow> bool" where
  "strings_ok s =
     (list_all (\<lambda>e. phone (snd e) \<noteq> Some []) (accounts s) \<and> activeAccountId s \<noteq> Some [])"

text \<open>Per entry of the Map, in order: the key, and the id, name, phone and creation time
  of the account.\<close>

definition saved_view :: "manager \<Rightarrow> (string \<times> string \<times> string \<times> string option \<times> nat) list" where
  "saved_view s =
     map (\<lambda>e. (fst e, acct_id (snd e), name (snd e), phone (snd e), createdAt (snd e)))
       (accounts s)"

text \<open>The session state of an account that has not been initialized.\<close>

definition uninitialized :: "account \<Rightarrow> bool" where
  "uninitialized a =
     (client a = None \<and> \<not> isReady a \<and> \<not> isAuthenticated a \<and> \<not> isInitializing a
      \<and> qrCode a = None)"

text \<open>The file on disk holds what \<^verbatim>\<open>saveAccountsConfig\<close> would write now, when it can
  be written at all.\<close>

definition synced :: "manager \<Rightarrow> bool" where
  "synced s = (diskWritable s \<longrightarrow> configFile s = Some (config_of s))"

text \<open>An account for which \<^verbatim>\<open>switchAccount\<close> starts no initialization: neither of its
  two conditions holds.\<close>

definition settled :: "account \<Rightarrow> bool" where
  "settled acc = (isInitializing acc \<or> (client acc \<noteq> None \<and> isReady acc))"

text \<open>An account that is initializing or ready; with a client it is settled.\<close>

definition progressing :: "account \<Rightarrow> bool" where
  "progressing acc = (isInitializing acc \<or> isReady acc)"

text \<open>A step that takes neither flag from an account without giving the other: every
  timer, and every event of a client but \<^verbatim>\<open>auth_failure\<close>, which clears
  \<^verbatim>\<open>isInitializing\<close>, and \<^verbatim>\<open>disconnected\<close>, which clears \<^verbatim>\<open>isReady\<close>.\<close>

fun benign :: "step \<Rightarrow> bool" where
  "benign (Deliver h ev v) = (ev \<noteq> EvAuthFailure \<and> ev \<noteq> EvDisconnected)"
| "benign (Fire i view) = True"

text \<open>The clients on which \<^verbatim>\<open>initialize()\<close> has been called, in the order of the calls.\<close>

fun is_initialize :: "call \<Rightarrow> bool" where
  "is_initialize (Initialize h) = True"
| "is_initialize c = False"

definition initializations :: "manager \<Rightarrow> call list" where
  "initializations s = filter is_initialize (calls s)"

text \<open>What no handler of a client and no timer writes: the cache of chats and its time,
  the wiring of the clients, the pointer to the active account, whether the disk can be
  written, and the calls of \<^verbatim>\<open>initialize()\<close> made so far.\<close>

definition untouched :: "manager \<Rightarrow> manager \<Rightarrow> bool" where
  "untouched s' s =
     (chatsCache s' = chatsCache s \<and> chatsCacheTime s' = chatsCacheTime s \<and>
      wired s' = wired s \<and> activeAccountId s' = activeAccountId s \<and>
      diskWritable s' = diskWritable s \<and> initializations s' = initializations s)"

text \<open>The test \<^verbatim>\<open>chats && Array.isArray(chats)\<close> on the outcome of a fetch.\<close>

definition returns_array :: "fetch \<Rightarrow> bool" where
  "returns_array f =
     (case f of FetchThrows \<Rightarrow> False | FetchReturns c \<Rightarrow> is_truthy c \<and> is_array c)"


text \<open>A pass of \<^verbatim>\<open>checkAndSetReady\<close> on a client that answers \<open>v\<close> marks the account
  ready: the page is open, the test fetch returns an array, and \<^verbatim>\<open>client.info\<close> can be
  read.\<close>

definition probe_succeeds :: "client_view \<Rightarrow> bool" where
  "probe_succeeds v =
     (pupPage v = PageOpen \<and> hasGetChats v \<and> returns_array (fetch v) \<and> info v \<noteq> InfoThrows)"

text \<open>A pass on a client that answers \<open>v\<close> goes as far as the test fetch, which
  throws.\<close>

definition probe_throws :: "client_view \<Rightarrow> bool" where
  "probe_throws v = (pupPage v = PageOpen \<and> hasGetChats v \<and> fetch v = FetchThrows)"

text \<open>The test \<^verbatim>\<open>testChats && Array.isArray(testChats)\<close> of \<^verbatim>\<open>verifyStores\<close>.\<close>

definition probe_ok :: "probe \<Rightarrow> bool" where
  "probe_ok p = (case p of ProbeReturns c \<Rightarrow> is_truthy c \<and> is_array c
                 | ProbeThrowsUpdate \<Rightarrow> False | ProbeThrows \<Rightarrow> False)"

text \<open>The keys of the Map of accounts, each with the id of the account under it.\<close>

definition key_ids :: "manager \<Rightarrow> (string \<times> string) list" where
  "key_ids s = map (\<lambda>e. (fst e, acct_id (snd e))) (accounts s)"

subsection \<open>Example states\<close>

text \<open>The manager of a first start, with nothing on disk.\<close>

definition first_start :: manager where
  "first_start = new_manager None None True (\<lambda>p. False)"

definition msg_1 :: deleted_message where
  "msg_1 = \<lparr>msg_id = ''msg_1'', chatId = ''123@c.us'', body = ''hello'', timestamp = 1700000000,
            fromMe = False, author = None, msg_type = ''revoked'', hasMedia = False,
            deletedAt = 1700000100, originalType = ''chat'', accountId = ''acc_1_a''\<rparr>"

definition revoked_1 :: revoked where
  "revoked_1 = \<lparr>rv_id = ''msg_1'', rv_body = ''hello'', rv_timestamp = 1700000000,
                rv_fromMe = False, rv_author = None, rv_hasMedia = False, rv_type = ''chat''\<rparr>"

text \<open>Two and ten accounts made on a first start; an account with no name given is
  called after its number.\<close>

definition two_accounts :: manager where
  "two_accounts = createAccounts [(Some ''Sales'', 1, ''a''), (None, 2, ''b'')] first_start"

definition ten_accounts :: manager where
  "ten_accounts = createAccounts
     [(Some ''Sales'', 1, ''a''), (None, 2, ''b''), (None, 3, ''c''), (None, 4, ''d''),
      (None, 5, ''e''), (None, 6, ''f''), (None, 7, ''g''), (None, 8, ''h''),
      (None, 9, ''i''), (None, 10, ''j'')] first_start"

text \<open>Client objects that answer: an open page, the phone of the account, and one chat
  each, \<^verbatim>\<open>123@c.us\<close> for the first client and \<^verbatim>\<open>456@c.us\<close> for the others.\<close>

definition healthy :: "handle \<Rightarrow> client_view" where
  "healthy h =
     \<lparr>pupPage = PageOpen, hasGetChats = True,
      info = InfoWid (if h = 0 then ''15551234567'' else ''15557654321''),
      fetch = FetchReturns (Chats (if h = 0 then [''123@c.us''] else [''456@c.us'']))\<rparr>"

text \<open>The same clients once their browser page is closed, with no chat at all, and with
  stores that never load, so that every fetch throws.\<close>

definition page_closed :: "handle \<Rightarrow> client_view" where
  "page_closed h = (healthy h)\<lparr>pupPage := PageClosed\<rparr>"


definition never_loads :: "nat \<Rightarrow> handle \<Rightarrow> client_view" where
  "never_loads n h = (healthy h)\<lparr>fetch := FetchThrows\<rparr>"

text \<open>A start during which nothing else runs; one whose \<^verbatim>\<open>client.initialize()\<close> throws
  in the end; one during which the new client, the first of the manager, reports
  \<^verbatim>\<open>auth_failure\<close> while \<^verbatim>\<open>client.initialize()\<close> is pending, which then returns;
  and one during which it shows a QR code instead.\<close>

definition starts :: startup where
  "starts = \<lparr>whileDestroying = [], constructThrows = False, whileInitializing = [],
              initializeThrows = False\<rparr>"

definition start_fails :: startup where
  "start_fails = \<lparr>whileDestroying = [], constructThrows = False, whileInitializing = [],
                   initializeThrows = True\<rparr>"

definition auth_fails :: startup where
  "auth_fails = \<lparr>whileDestroying = [], constructThrows = False,
                  whileInitializing = [Deliver 0 EvAuthFailure (healthy 0)],
                  initializeThrows = False\<rparr>"

definition scans :: startup where
  "scans = \<lparr>whileDestroying = [], constructThrows = False,
             whileInitializing = [Deliver 0 (EvQr ''2@qr'') (healthy 0)],
             initializeThrows = False\<rparr>"

text \<open>A deletion that meets no directory of credentials, and one whose directory cannot
  be removed.\<close>

definition quiet :: teardown where
  "quiet = \<lparr>logoutThrows = False, destroyThrows = False, authPathExists = False,
             removeThrows = False\<rparr>"

definition locked :: teardown where
  "locked = \<lparr>logoutThrows = False, destroyThrows = False, authPathExists = True,
              removeThrows = True\<rparr>"

text \<open>The first of two accounts is initialized and authenticates.\<close>

definition running_1 :: manager where
  "running_1 = snd (initializeAccount ''acc_1_a'' starts two_accounts)"

definition authenticated_1 :: manager where
  "authenticated_1 = deliver 0 EvAuthenticated (healthy 0) running_1"

text \<open>Then its chats are read at time 100000.\<close>

definition fetched_1 :: manager where
  "fetched_1 = snd (getChats 100000 healthy authenticated_1)"

text \<open>Or else: the library signals \<^verbatim>\<open>ready\<close>, a message comes in before the ten seconds
  of the handler have passed, and then they pass.\<close>

definition signalled_1 :: manager where
  "signalled_1 = deliver 0 EvReady (healthy 0) authenticated_1"

definition messaged_1 :: manager where
  "messaged_1 = deliver 0 EvMessage (healthy 0) signalled_1"

definition settled_1 :: manager where
  "settled_1 = fire 1 healthy messaged_1"





text \<open>With two fresh accounts, a switch to the second whose \<^verbatim>\<open>client.initialize()\<close>
  throws.\<close>

definition switch_failed :: manager where
  "switch_failed = snd (switchAccount ''acc_2_b'' start_fails two_accounts)"

text \<open>A single-account client that has authenticated and is not ready, and stores that
  never load: every test call throws with the \<^verbatim>\<open>reading 'update'\<close> message.\<close>

definition paired :: whatsapp_client where
  "paired = \<lparr>wc_client = True, wc_qrCode = None, wc_isReady = False,
              wc_isAuthenticated = True, wc_emitted = [''authenticated''], wc_waits = []\<rparr>"

definition stores_loading :: "nat \<Rightarrow> probe" where
  "stores_loading n = ProbeThrowsUpdate"

section \<open>Properties\<close>

subsection \<open>The Map\<close>

lemma Map_set_idem: "Map_set k v (Map_set k v m) = Map_set k v m"
  by (induction m) auto

lemma Map_set_keys:
  "map fst (Map_set k v m) = (if k \<in> fst ` set m then map fst m else map fst m @ [k])"
  by (induction m) force+

lemma Map_set_length:
  "length (Map_set k v m) = (if k \<in> fst ` set m then length m else Suc (length m))"
  by (induction m) force+

lemma Map_set_distinct: "distinct (map fst m) \<Longrightarrow> distinct (map fst (Map_set k v m))"
  by (simp add: Map_set_keys)

lemma Map_set_has_key: "k \<in> fst ` set (Map_set k v m)"
  by (induction m) force+

lemma filter_absent_key: "k \<notin> fst ` set m \<Longrightarrow> filter (\<lambda>e. fst e = k) m = []"
  by (induction m) auto

lemma Map_set_count:
  "distinct (map fst m) \<Longrightarrow> length (filter (\<lambda>e. fst e = k) (Map_set k v m)) = 1"
proof (induction m)
  case Nil
  then show ?case by simp
next
  case (Cons e m)
  show ?case
  proof (cases "fst e = k")
    case True
    with Cons.prems have "k \<notin> fst ` set m" by auto
    then have "filter (\<lambda>e. fst e = k) m = []" by (rule filter_absent_key)
    with True show ?thesis by (cases e) simp
  next
    case False
    with Cons show ?thesis by (cases e) simp
  qed
qed

lemma getDeleted_foldl:
  "foldl (\<lambda>result e. if chatId (snd e) = c then result @ [snd e] else result) acc m
     = acc @ filter (\<lambda>d. chatId d = c) (map snd m)"
  by (induction m arbitrary: acc) auto

lemma getDeletedMessagesForChat_filter:
  "getDeletedMessagesForChat s c = filter (\<lambda>d. chatId d = c) (map snd (deletedMessages s))"
  by (simp add: getDeletedMessagesForChat_def getDeleted_foldl)

lemma deletedMessages_save:
  "deletedMessages (saveDeletedMessage m s) = Map_set (msg_id m) m (deletedMessages s)"
  by (simp add: saveDeletedMessage_def saveDeletedMessages_def)

lemma saveDeletedMessage_idem:
  "saveDeletedMessage m (saveDeletedMessage m s) = saveDeletedMessage m s"
  by (simp add: saveDeletedMessage_def saveDeletedMessages_def Map_set_idem)

lemma deletedMessages_revoke:
  "map fst (deletedMessages (on_message_revoke_everyone k f t (Some r) now s))
     = (if rv_id r \<in> fst ` set (deletedMessages s) then map fst (deletedMessages s)
        else map fst (deletedMessages s) @ [rv_id r])"
  by (simp add: on_message_revoke_everyone_def emit_def Map_set_keys Let_def deletedMessages_save)

lemma deletedMessages_revoke_twice:
  "map fst (deletedMessages (on_message_revoke_everyone k f t (Some r) now'
              (on_message_revoke_everyone k f t (Some r) now s)))
     = map fst (deletedMessages (on_message_revoke_everyone k f t (Some r) now s))"
proof -
  have "rv_id r \<in> set (map fst (deletedMessages (on_message_revoke_everyone k f t (Some r) now s)))"
    unfolding deletedMessages_revoke by simp
  then show ?thesis
    unfolding deletedMessages_revoke [of k f t r now'] by simp
qed

text \<open>
  C8.  Saving a record of a deleted message twice is saving it once.  In a ledger with
  distinct keys, as a Map has them, the saved id has exactly one entry afterwards, and
  saving under an id that is present does not change the number of entries; delivering
  the same \<^verbatim>\<open>message_revoke_everyone\<close> event again, at any later time, leaves the keys
  of the ledger as they are.  \<^verbatim>\<open>getDeletedMessagesForChat\<close> returns, in ledger order,
  exactly the records whose \<^verbatim>\<open>chatId\<close> is the argument, and reads nothing but the
  ledger: two managers with the same ledger give the same answer, whatever their accounts
  and clients.
\<close>

theorem deleted_message_ledger:
  "saveDeletedMessage m (saveDeletedMessage m s) = saveDeletedMessage m s \<and>
   (distinct (map fst (deletedMessages s)) \<longrightarrow>
      distinct (map fst (deletedMessages (saveDeletedMessage m s))) \<and>
      length (filter (\<lambda>e. fst e = msg_id m) (deletedMessages (saveDeletedMessage m s))) = 1) \<and>
   (msg_id m \<in> fst ` set (deletedMessages s) \<longrightarrow>
      length (deletedMessages (saveDeletedMessage m s)) = length (deletedMessages s)) \<and>
   map fst (deletedMessages (on_message_revoke_everyone k f t (Some r) now'
              (on_message_revoke_everyone k f t (Some r) now s)))
     = map fst (deletedMessages (on_message_revoke_everyone k f t (Some r) now s)) \<and>
   getDeletedMessagesForChat s c = filter (\<lambda>d. chatId d = c) (map snd (deletedMessages s)) \<and>
   (deletedMessages s' = deletedMessages s \<longrightarrow>
      getDeletedMessagesForChat s' c = getDeletedMessagesForChat s c)"
  apply (intro conjI impI)
  apply (rule saveDeletedMessage_idem)
  apply (simp add: Map_set_distinct deletedMessages_save)
  apply (simp add: Map_set_count deletedMessages_save)
  apply (simp add: Map_set_length deletedMessages_save)
  apply (rule deletedMessages_revoke_twice)
  apply (rule getDeletedMessagesForChat_filter)
  apply (simp add: getDeletedMessagesForChat_filter)
  done


theorem deleted_message_ledger_witness:
  "distinct (map fst (deletedMessages (saveDeletedMessage msg_1 first_start))) \<and>
   msg_id msg_1 \<in> fst ` set (deletedMessages (saveDeletedMessage msg_1 first_start)) \<and>
   deletedMessages (emit (Ready ''acc_1_a'') (saveDeletedMessage msg_1 first_start))
     = deletedMessages (saveDeletedMessage msg_1 first_start) \<and>
   length (deletedMessages (saveDeletedMessage msg_1 (saveDeletedMessage msg_1 first_start))) = 1 \<and>
   getDeletedMessagesForChat (emit (Ready ''acc_1_a'') (saveDeletedMessage msg_1 first_start))
     ''123@c.us'' = [msg_1]"
  using deleted_message_ledger [of msg_1 "saveDeletedMessage msg_1 first_start"
      "''acc_1_a''" "''123@c.us''" "''me@c.us''" revoked_1 1700000200 1700000100 "''123@c.us''"
      "emit (Ready ''acc_1_a'') (saveDeletedMessage msg_1 first_start)"]
  by (simp add: first_start_def new_manager_def loadAccountsConfig_def
      loadDeletedMessages_def saveDeletedMessage_def saveDeletedMessages_def emit_def
      msg_1_def getDeletedMessagesForChat_def)

subsection \<open>The account store\<close>

lemma accounts_saveAccountsConfig [simp]: "accounts (saveAccountsConfig s) = accounts s"
  by (simp add: saveAccountsConfig_def)

lemma activeAccountId_saveAccountsConfig [simp]:
  "activeAccountId (saveAccountsConfig s) = activeAccountId s"
  by (simp add: saveAccountsConfig_def)

lemma accounts_emit [simp]: "accounts (emit e s) = accounts s"
  by (simp add: emit_def)

lemma activeAccountId_emit [simp]: "activeAccountId (emit e s) = activeAccountId s"
  by (simp add: emit_def)

lemma accounts_call_out [simp]: "accounts (call_out c s) = accounts s"
  by (simp add: call_out_def)

lemma activeAccountId_call_out [simp]: "activeAccountId (call_out c s) = activeAccountId s"
  by (simp add: call_out_def)

lemma createAccount_length:
  "length (accounts s) \<le> maxAccounts \<Longrightarrow>
   length (accounts (snd (createAccount nm now rnd s))) \<le> maxAccounts"
  by (simp add: createAccount_def Let_def Map_set_length)

lemma createAccounts_length:
  "length (accounts s) \<le> maxAccounts \<Longrightarrow>
   length (accounts (createAccounts args s)) \<le> maxAccounts"
proof (induction args arbitrary: s)
  case Nil
  then show ?case by simp
next
  case (Cons a args)
  obtain nm now rnd where a: "a = (nm, now, rnd)" by (cases a) auto
  from Cons.prems have "length (accounts (snd (createAccount nm now rnd s))) \<le> maxAccounts"
    by (rule createAccount_length)
  then show ?case unfolding a by (simp add: Cons.IH)
qed

lemma accounts_first_start [simp]: "accounts first_start = []"
  by (simp add: first_start_def new_manager_def loadAccountsConfig_def loadDeletedMessages_def)

text \<open>
  C1.  \<^verbatim>\<open>maxAccounts\<close> is 10.  Whatever run of \<^verbatim>\<open>createAccount\<close> calls is made
  on a first start, or on any manager that holds at most \<^verbatim>\<open>maxAccounts\<close> accounts, the
  manager holds at most \<^verbatim>\<open>maxAccounts\<close> accounts afterwards.  A call made when the
  count has reached \<^verbatim>\<open>maxAccounts\<close> throws \<open>CapacityExceeded\<close> and leaves the whole
  manager, with the accounts and the file on disk, as it was.
\<close>

theorem createAccount_capacity:
  "maxAccounts = 10 \<and>
   length (accounts (createAccounts args first_start)) \<le> maxAccounts \<and>
   (length (accounts s) \<le> maxAccounts \<longrightarrow>
      length (accounts (createAccounts args s)) \<le> maxAccounts) \<and>
   (length (accounts s) \<ge> maxAccounts \<longrightarrow>
      createAccount nm now rnd s = (Inl CapacityExceeded, s))"
  by (simp add: createAccounts_length) (simp add: maxAccounts_def createAccount_def)


theorem createAccount_capacity_witness:
  "length (accounts ten_accounts) \<le> maxAccounts \<and>
   length (accounts ten_accounts) \<ge> maxAccounts \<and>
   length (accounts (createAccounts [(Some ''Support'', 11, ''k'')] ten_accounts)) \<le> maxAccounts \<and>
   createAccount (Some ''Support'') 11 ''k'' ten_accounts = (Inl CapacityExceeded, ten_accounts)"
proof -
  have len: "length (accounts ten_accounts) = 10" by code_simp
  show ?thesis
    using createAccount_capacity [of "[(Some ''Support'', 11, ''k'')]" ten_accounts
        "Some ''Support''" 11 "''k''"] len
    by (simp add: maxAccounts_def)
qed

lemma generateAccountId_nonempty: "generateAccountId now rnd \<noteq> []"
  by (simp add: generateAccountId_def)

lemma Map_set_list_all: "P (k, v) \<Longrightarrow> list_all P m \<Longrightarrow> list_all P (Map_set k v m)"
  by (induction m) auto

lemma accounts_ok_createAccount:
  "accounts_ok s \<Longrightarrow> accounts_ok (snd (createAccount nm now rnd s))"
  by (simp add: accounts_ok_def createAccount_def Let_def Map_set_distinct Map_set_list_all
      generateAccountId_nonempty)

lemma Map_get_None: "Map_get m k = None \<longleftrightarrow> k \<notin> fst ` set m"
  by (induction m) (force split: if_splits)+

lemma Map_delete_absent: "k \<notin> fst ` set m \<Longrightarrow> Map_delete k m = m"
  by (induction m) (auto simp: Map_delete_def)

lemma deleteAccount_returns:
  "(fst (deleteAccount k env s) = Inr ()) =
     (k \<in> fst ` set (accounts s) \<and> \<not> (authPathExists env \<and> removeThrows env))"
proof (cases "Map_get (accounts s) k")
  case None
  then have "k \<notin> fst ` set (accounts s)" by (simp add: Map_get_None)
  with None show ?thesis by (simp add: deleteAccount_def)
next
  case (Some acc)
  then have "k \<in> fst ` set (accounts s)" using Map_get_None [of "accounts s" k] by simp
  then show ?thesis using Some by (simp add: deleteAccount_def Let_def)
qed

lemma accounts_deleteAccount:
  "accounts (snd (deleteAccount k env s)) =
     (if fst (deleteAccount k env s) = Inr () then Map_delete k (accounts s) else accounts s)"
proof (cases "Map_get (accounts s) k")
  case None
  then show ?thesis by (simp add: deleteAccount_def)
next
  case (Some acc)
  then show ?thesis
    by (simp add: deleteAccount_def Let_def split: option.split)
qed

lemma deleteAccount_throws:
  assumes "fst (deleteAccount k env s) \<noteq> Inr ()"
  shows "accounts (snd (deleteAccount k env s)) = accounts s \<and>
     activeAccountId (snd (deleteAccount k env s)) = activeAccountId s"
proof (cases "Map_get (accounts s) k")
  case None
  then show ?thesis by (simp add: deleteAccount_def)
next
  case (Some acc)
  with assms have "authPathExists env \<and> removeThrows env"
    by (auto simp: deleteAccount_def Let_def split: if_splits)
  with Some show ?thesis
    by (simp add: deleteAccount_def Let_def split: option.split)
qed

lemma accounts_ok_deleteAccount:
  "accounts_ok s \<Longrightarrow> accounts_ok (snd (deleteAccount k env s))"
  by (simp add: accounts_ok_def accounts_deleteAccount Map_delete_def distinct_map_filter
      list_all_iff)

lemma count_by_id:
  "distinct (map fst m) \<Longrightarrow> list_all (\<lambda>e. acct_id (snd e) = fst e \<and> fst e \<noteq> []) m \<Longrightarrow>
   length (filter (\<lambda>a. acct_id a = k) (map snd m)) = (if k \<in> fst ` set m then 1 else 0)"
proof (induction m)
  case Nil
  then show ?case by simp
next
  case (Cons e m)
  then have IH: "length (filter (\<lambda>a. acct_id a = k) (map snd m)) = (if k \<in> fst ` set m then 1 else 0)"
    by simp
  from Cons.prems have e: "acct_id (snd e) = fst e" "fst e \<notin> fst ` set m" by auto
  show ?case
  proof (cases "fst e = k")
    case True
    with e IH show ?thesis by simp
  next
    case False
    with e IH show ?thesis by simp
  qed
qed

lemma active_accounts_count:
  assumes "accounts_ok s"
  shows "length (active_accounts s) =
     (case activeAccountId s of
        None \<Rightarrow> 0
      | Some k \<Rightarrow> if k \<in> fst ` set (accounts s) then 1 else 0)"
proof (cases "activeAccountId s")
  case None
  then show ?thesis by (simp add: active_accounts_def isActive_def)
next
  case (Some k)
  have "active_accounts s = filter (\<lambda>a. acct_id a = k) (map snd (accounts s))"
    unfolding active_accounts_def by (rule filter_cong) (auto simp: isActive_def Some)
  moreover have "length (filter (\<lambda>a. acct_id a = k) (map snd (accounts s)))
      = (if k \<in> fst ` set (accounts s) then 1 else 0)"
    using assms unfolding accounts_ok_def by (intro count_by_id) auto
  ultimately show ?thesis using Some by simp
qed

lemma activeAccountId_createAccount:
  "activeAccountId (snd (createAccount nm now rnd s)) =
     (if length (accounts s) < maxAccounts \<and>
         length (accounts (snd (createAccount nm now rnd s))) = 1
      then Some (generateAccountId now rnd) else activeAccountId s)"
  by (simp add: createAccount_def Let_def)

lemma activeAccountId_createAccount_fresh:
  assumes "generateAccountId now rnd \<notin> fst ` set (accounts s)"
  shows "activeAccountId (snd (createAccount nm now rnd s)) =
     (if accounts s = [] then Some (generateAccountId now rnd) else activeAccountId s)"
  using assms by (auto simp: createAccount_def Let_def Map_set_length maxAccounts_def)

lemma activeAccountId_deleteAccount:
  assumes "accounts_ok s" "fst (deleteAccount k env s) = Inr ()"
  shows "activeAccountId (snd (deleteAccount k env s)) =
     (if activeAccountId s = Some k then Map_first_key (Map_delete k (accounts s))
      else activeAccountId s)"
proof -
  have ne: "list_all (\<lambda>e. fst e \<noteq> []) (Map_delete k (accounts s))"
    using assms(1) by (auto simp: accounts_ok_def Map_delete_def list_all_iff)
  have first: "or_null (Map_first_key (Map_delete k (accounts s)))
      = Map_first_key (Map_delete k (accounts s))"
    using ne by (cases "Map_delete k (accounts s)") (auto simp: Map_first_key_def or_null_def truthy_def)
  from assms(2) have r: "k \<in> fst ` set (accounts s)"
    "\<not> (authPathExists env \<and> removeThrows env)"
    by (simp_all add: deleteAccount_returns)
  from r(1) obtain acc where acc: "Map_get (accounts s) k = Some acc"
    using Map_get_None [of "accounts s" k] by (cases "Map_get (accounts s) k") auto
  show ?thesis
    using acc r(2) first
    by (auto simp: deleteAccount_def Let_def split: option.split)
qed

lemma Map_first_key_mem: "m \<noteq> [] \<Longrightarrow> \<exists>k. Map_first_key m = Some k \<and> k \<in> fst ` set m"
  by (cases m) (auto simp: Map_first_key_def)

text \<open>
  C2.  In a manager whose Map of accounts is as the code builds it (distinct keys, every
  account under its own non-empty id) at most one account is active, and
  \<^verbatim>\<open>createAccount\<close> and \<^verbatim>\<open>deleteAccount\<close> keep the Map so.  \<^verbatim>\<open>createAccount\<close>
  points the manager at the new account exactly when the Map holds one account after the
  insertion, which for a fresh id is when the Map was empty; otherwise the pointer stays.
  \<^verbatim>\<open>deleteAccount\<close> returns exactly when the account exists and the removal of its
  directory of credentials does not throw.  When it returns from deleting the active
  account, the manager points at the first remaining account in stored order, or at
  nothing when none remains, and when it returns from deleting another account the
  pointer is as before; when the active account was deleted and others remain, exactly one
  account is active afterwards.  When it throws, the accounts and the pointer are as
  before.
\<close>

theorem single_active_account:
  assumes "accounts_ok s"
  shows "length (active_accounts s) \<le> 1 \<and>
     accounts_ok (snd (createAccount nm now rnd s)) \<and>
     accounts_ok (snd (deleteAccount k env s)) \<and>
     activeAccountId (snd (createAccount nm now rnd s)) =
       (if length (accounts s) < maxAccounts \<and>
           length (accounts (snd (createAccount nm now rnd s))) = 1
        then Some (generateAccountId now rnd) else activeAccountId s) \<and>
     (generateAccountId now rnd \<notin> fst ` set (accounts s) \<longrightarrow>
        activeAccountId (snd (createAccount nm now rnd s)) =
          (if accounts s = [] then Some (generateAccountId now rnd) else activeAccountId s)) \<and>
     (fst (deleteAccount k env s) = Inr ()) =
       (k \<in> fst ` set (accounts s) \<and> \<not> (authPathExists env \<and> removeThrows env)) \<and>
     (fst (deleteAccount k env s) = Inr () \<longrightarrow>
        accounts (snd (deleteAccount k env s)) = Map_delete k (accounts s) \<and>
        activeAccountId (snd (deleteAccount k env s)) =
          (if activeAccountId s = Some k then Map_first_key (Map_delete k (accounts s))
           else activeAccountId s)) \<and>
     (fst (deleteAccount k env s) = Inr () \<and> activeAccountId s = Some k
        \<and> Map_delete k (accounts s) \<noteq> [] \<longrightarrow>
        length (active_accounts (snd (deleteAccount k env s))) = 1) \<and>
     (fst (deleteAccount k env s) \<noteq> Inr () \<longrightarrow>
        accounts (snd (deleteAccount k env s)) = accounts s \<and>
        activeAccountId (snd (deleteAccount k env s)) = activeAccountId s)"
proof (intro conjI impI)
  show "length (active_accounts s) \<le> 1"
    using assms by (simp add: active_accounts_count split: option.splits)
  show "accounts_ok (snd (createAccount nm now rnd s))"
    using assms by (rule accounts_ok_createAccount)
  show "accounts_ok (snd (deleteAccount k env s))"
    using assms by (rule accounts_ok_deleteAccount)
  show "activeAccountId (snd (createAccount nm now rnd s)) =
       (if length (accounts s) < maxAccounts \<and>
           length (accounts (snd (createAccount nm now rnd s))) = 1
        then Some (generateAccountId now rnd) else activeAccountId s)"
    by (rule activeAccountId_createAccount)
  show "activeAccountId (snd (createAccount nm now rnd s)) =
          (if accounts s = [] then Some (generateAccountId now rnd) else activeAccountId s)"
    if "generateAccountId now rnd \<notin> fst ` set (accounts s)"
    using that by (rule activeAccountId_createAccount_fresh)
  show "(fst (deleteAccount k env s) = Inr ()) =
       (k \<in> fst ` set (accounts s) \<and> \<not> (authPathExists env \<and> removeThrows env))"
    by (rule deleteAccount_returns)
  show "accounts (snd (deleteAccount k env s)) = Map_delete k (accounts s)"
    if "fst (deleteAccount k env s) = Inr ()"
    using that by (simp add: accounts_deleteAccount)
  show "activeAccountId (snd (deleteAccount k env s)) =
          (if activeAccountId s = Some k then Map_first_key (Map_delete k (accounts s))
           else activeAccountId s)"
    if "fst (deleteAccount k env s) = Inr ()"
    using assms that by (rule activeAccountId_deleteAccount)
  show "length (active_accounts (snd (deleteAccount k env s))) = 1"
    if h: "fst (deleteAccount k env s) = Inr () \<and> activeAccountId s = Some k
        \<and> Map_delete k (accounts s) \<noteq> []"
  proof -
    let ?s' = "snd (deleteAccount k env s)"
    from h obtain k' where k': "Map_first_key (Map_delete k (accounts s)) = Some k'"
      "k' \<in> fst ` set (Map_delete k (accounts s))"
      using Map_first_key_mem by blast
    have "activeAccountId ?s' = Some k'"
      using activeAccountId_deleteAccount [OF assms, of k env] h k'(1) by simp
    moreover have "accounts_ok ?s'" using assms by (rule accounts_ok_deleteAccount)
    ultimately show ?thesis
      using k'(2) h by (simp add: active_accounts_count accounts_deleteAccount)
  qed
  show "accounts (snd (deleteAccount k env s)) = accounts s"
    if "fst (deleteAccount k env s) \<noteq> Inr ()"
    using deleteAccount_throws [OF that] by simp
  show "activeAccountId (snd (deleteAccount k env s)) = activeAccountId s"
    if "fst (deleteAccount k env s) \<noteq> Inr ()"
    using deleteAccount_throws [OF that] by simp
qed

theorem single_active_account_witness:
  "accounts_ok two_accounts \<and>
   generateAccountId 3 ''c'' \<notin> fst ` set (accounts two_accounts) \<and>
   activeAccountId two_accounts = Some ''acc_1_a'' \<and>
   Map_delete ''acc_1_a'' (accounts two_accounts) \<noteq> [] \<and>
   length (active_accounts two_accounts) \<le> 1 \<and>
   activeAccountId (snd (createAccount None 3 ''c'' two_accounts)) = Some ''acc_1_a'' \<and>
   fst (deleteAccount ''acc_1_a'' quiet two_accounts) = Inr () \<and>
   activeAccountId (snd (deleteAccount ''acc_1_a'' quiet two_accounts)) = Some ''acc_2_b'' \<and>
   length (active_accounts (snd (deleteAccount ''acc_1_a'' quiet two_accounts))) = 1 \<and>
   fst (deleteAccount ''acc_1_a'' locked two_accounts) \<noteq> Inr () \<and>
   accounts (snd (deleteAccount ''acc_1_a'' locked two_accounts)) = accounts two_accounts \<and>
   activeAccountId (snd (deleteAccount ''acc_1_a'' locked two_accounts)) = Some ''acc_1_a''"
proof -
  have ok: "accounts_ok two_accounts" by code_simp
  have fresh: "generateAccountId 3 ''c'' \<notin> fst ` set (accounts two_accounts)" by code_simp
  have mem: "''acc_1_a'' \<in> fst ` set (accounts two_accounts)" by code_simp
  have act: "activeAccountId two_accounts = Some ''acc_1_a''" by code_simp
  have rest: "Map_delete ''acc_1_a'' (accounts two_accounts) \<noteq> []" by code_simp
  have ne: "accounts two_accounts \<noteq> []" by code_simp
  have first: "Map_first_key (Map_delete ''acc_1_a'' (accounts two_accounts)) = Some ''acc_2_b''"
    by code_simp
  have len: "length (accounts (snd (createAccount None 3 ''c'' two_accounts))) = 3"
    by code_simp
  have q: "\<not> (authPathExists quiet \<and> removeThrows quiet)" by (simp add: quiet_def)
  have l: "authPathExists locked \<and> removeThrows locked" by (simp add: locked_def)
  show ?thesis
    using single_active_account [OF ok, of None 3 "''c''" "''acc_1_a''" quiet]
      single_active_account [OF ok, of None 3 "''c''" "''acc_1_a''" locked]
      ok fresh mem act rest ne first len q l
    by simp
qed

subsection \<open>The example states, computed\<close>

lemma two_accounts_value:
  "two_accounts =
     \<lparr>accounts =
         [(''acc_1_a'',
           \<lparr>acct_id = ''acc_1_a'', name = ''Sales'', phone = None, createdAt = 1,
              client = None, isReady = False, isAuthenticated = False,
              isInitializing = False, qrCode = None, hasStoredSession = False\<rparr>),
          (''acc_2_b'',
           \<lparr>acct_id = ''acc_2_b'', name = ''Account 2'', phone = None,
              createdAt = 2, client = None, isReady = False,
              isAuthenticated = False, isInitializing = False, qrCode = None,
              hasStoredSession = False\<rparr>)],
         activeAccountId = Some ''acc_1_a'', deletedMessages = [],
         chatsCache = Falsy, chatsCacheTime = 0,
         configFile =
           Some
            \<lparr>cfg_activeAccountId = Some ''acc_1_a'',
               cfg_accounts =
                 [\<lparr>cfg_id = ''acc_1_a'', cfg_name = ''Sales'', cfg_phone = None,
                     cfg_createdAt = 1\<rparr>,
                  \<lparr>cfg_id = ''acc_2_b'', cfg_name = ''Account 2'',
                     cfg_phone = None, cfg_createdAt = 2\<rparr>]\<rparr>,
         deletedMessagesFile = None, diskWritable = True,
         emitted =
           [AccountCreated ''acc_1_a'' ''Sales'',
            AccountCreated ''acc_2_b'' ''Account 2''],
         calls = [], timers = [], wired = []\<rparr>"
  by code_simp

lemma running_1_value:
  "running_1 =
     \<lparr>accounts =
         [(''acc_1_a'',
           \<lparr>acct_id = ''acc_1_a'', name = ''Sales'', phone = None, createdAt = 1,
              client = Some 0, isReady = False, isAuthenticated = False,
              isInitializing = True, qrCode = None, hasStoredSession = False\<rparr>),
          (''acc_2_b'',
           \<lparr>acct_id = ''acc_2_b'', name = ''Account 2'', phone = None,
              createdAt = 2, client = None, isReady = False,
              isAuthenticated = False, isInitializing = False, qrCode = None,
              hasStoredSession = False\<rparr>)],
         activeAccountId = Some ''acc_1_a'', deletedMessages = [],
         chatsCache = Falsy, chatsCacheTime = 0,
         configFile =
           Some
            \<lparr>cfg_activeAccountId = Some ''acc_1_a'',
               cfg_accounts =
                 [\<lparr>cfg_id = ''acc_1_a'', cfg_name = ''Sales'', cfg_phone = None,
                     cfg_createdAt = 1\<rparr>,
                  \<lparr>cfg_id = ''acc_2_b'', cfg_name = ''Account 2'',
                     cfg_phone = None, cfg_createdAt = 2\<rparr>]\<rparr>,
         deletedMessagesFile = None, diskWritable = True,
         emitted =
           [AccountCreated ''acc_1_a'' ''Sales'',
            AccountCreated ''acc_2_b'' ''Account 2''],
         calls = [Construct 0, Initialize 0], timers = [],
         wired = [(0, ''acc_1_a'')]\<rparr>"
  unfolding running_1_def two_accounts_value
  by (simp add: initializeAccount_def starts_def update_account_def emit_def call_out_def setTimeout_def Let_def)

lemma authenticated_1_value:
  "authenticated_1 =
     \<lparr>accounts =
         [(''acc_1_a'',
           \<lparr>acct_id = ''acc_1_a'', name = ''Sales'', phone = None, createdAt = 1,
              client = Some 0, isReady = False, isAuthenticated = True,
              isInitializing = True, qrCode = None, hasStoredSession = False\<rparr>),
          (''acc_2_b'',
           \<lparr>acct_id = ''acc_2_b'', name = ''Account 2'', phone = None,
              createdAt = 2, client = None, isReady = False,
              isAuthenticated = False, isInitializing = False, qrCode = None,
              hasStoredSession = False\<rparr>)],
         activeAccountId = Some ''acc_1_a'', deletedMessages = [],
         chatsCache = Falsy, chatsCacheTime = 0,
         configFile =
           Some
            \<lparr>cfg_activeAccountId = Some ''acc_1_a'',
               cfg_accounts =
                 [\<lparr>cfg_id = ''acc_1_a'', cfg_name = ''Sales'', cfg_phone = None,
                     cfg_createdAt = 1\<rparr>,
                  \<lparr>cfg_id = ''acc_2_b'', cfg_name = ''Account 2'',
                     cfg_phone = None, cfg_createdAt = 2\<rparr>]\<rparr>,
         deletedMessagesFile = None, diskWritable = True,
         emitted =
           [AccountCreated ''acc_1_a'' ''Sales'',
            AccountCreated ''acc_2_b'' ''Account 2'', Authenticated ''acc_1_a''],
         calls = [Construct 0, Initialize 0],
         timers = [(20000, CheckReady ''acc_1_a'' 0)],
         wired = [(0, ''acc_1_a'')]\<rparr>"
  unfolding authenticated_1_def running_1_value
  by (simp add: deliver_def on_authenticated_def update_account_def emit_def call_out_def setTimeout_def Let_def)

lemma fetched_1_value:
  "fetched_1 =
     \<lparr>accounts =
         [(''acc_1_a'',
           \<lparr>acct_id = ''acc_1_a'', name = ''Sales'', phone = None, createdAt = 1,
              client = Some 0, isReady = True, isAuthenticated = True,
              isInitializing = False, qrCode = None, hasStoredSession = False\<rparr>),
          (''acc_2_b'',
           \<lparr>acct_id = ''acc_2_b'', name = ''Account 2'', phone = None,
              createdAt = 2, client = None, isReady = False,
              isAuthenticated = False, isInitializing = False, qrCode = None,
              hasStoredSession = False\<rparr>)],
         activeAccountId = Some ''acc_1_a'', deletedMessages = [],
         chatsCache = Chats [''123@c.us''], chatsCacheTime = 100000,
         configFile =
           Some
            \<lparr>cfg_activeAccountId = Some ''acc_1_a'',
               cfg_accounts =
                 [\<lparr>cfg_id = ''acc_1_a'', cfg_name = ''Sales'', cfg_phone = None,
                     cfg_createdAt = 1\<rparr>,
                  \<lparr>cfg_id = ''acc_2_b'', cfg_name = ''Account 2'',
                     cfg_phone = None, cfg_createdAt = 2\<rparr>]\<rparr>,
         deletedMessagesFile = None, diskWritable = True,
         emitted =
           [AccountCreated ''acc_1_a'' ''Sales'',
            AccountCreated ''acc_2_b'' ''Account 2'', Authenticated ''acc_1_a'',
            Ready ''acc_1_a''],
         calls = [Construct 0, Initialize 0, GetChats 0],
         timers = [(20000, CheckReady ''acc_1_a'' 0)],
         wired = [(0, ''acc_1_a'')]\<rparr>"
  unfolding fetched_1_def authenticated_1_value
  by (simp add: getChats_def getActiveAccount_def or_null_def truthy_def healthy_def chatsCacheDuration_def update_account_def emit_def call_out_def setTimeout_def Let_def)

lemma signalled_1_value:
  "signalled_1 =
     \<lparr>accounts =
         [(''acc_1_a'',
           \<lparr>acct_id = ''acc_1_a'', name = ''Sales'',
              phone = Some ''15551234567'', createdAt = 1, client = Some 0,
              isReady = False, isAuthenticated = True, isInitializing = True,
              qrCode = None, hasStoredSession = False\<rparr>),
          (''acc_2_b'',
           \<lparr>acct_id = ''acc_2_b'', name = ''Account 2'', phone = None,
              createdAt = 2, client = None, isReady = False,
              isAuthenticated = False, isInitializing = False, qrCode = None,
              hasStoredSession = False\<rparr>)],
         activeAccountId = Some ''acc_1_a'', deletedMessages = [],
         chatsCache = Falsy, chatsCacheTime = 0,
         configFile =
           Some
            \<lparr>cfg_activeAccountId = Some ''acc_1_a'',
               cfg_accounts =
                 [\<lparr>cfg_id = ''acc_1_a'', cfg_name = ''Sales'',
                     cfg_phone = Some ''15551234567'', cfg_createdAt = 1\<rparr>,
                  \<lparr>cfg_id = ''acc_2_b'', cfg_name = ''Account 2'',
                     cfg_phone = None, cfg_createdAt = 2\<rparr>]\<rparr>,
         deletedMessagesFile = None, diskWritable = True,
         emitted =
           [AccountCreated ''acc_1_a'' ''Sales'',
            AccountCreated ''acc_2_b'' ''Account 2'', Authenticated ''acc_1_a''],
         calls = [Construct 0, Initialize 0],
         timers =
           [(20000, CheckReady ''acc_1_a'' 0), (10000, ReadySettle ''acc_1_a'')],
         wired = [(0, ''acc_1_a'')]\<rparr>"
  unfolding signalled_1_def authenticated_1_value
  by (simp add: deliver_def on_ready_def healthy_def saveAccountsConfig_def config_of_def to_saved_def update_account_def emit_def call_out_def setTimeout_def Let_def)

lemma messaged_1_value:
  "messaged_1 =
     \<lparr>accounts =
         [(''acc_1_a'',
           \<lparr>acct_id = ''acc_1_a'', name = ''Sales'',
              phone = Some ''15551234567'', createdAt = 1, client = Some 0,
              isReady = True, isAuthenticated = True, isInitializing = False,
              qrCode = None, hasStoredSession = False\<rparr>),
          (''acc_2_b'',
           \<lparr>acct_id = ''acc_2_b'', name = ''Account 2'', phone = None,
              createdAt = 2, client = None, isReady = False,
              isAuthenticated = False, isInitializing = False, qrCode = None,
              hasStoredSession = False\<rparr>)],
         activeAccountId = Some ''acc_1_a'', deletedMessages = [],
         chatsCache = Falsy, chatsCacheTime = 0,
         configFile =
           Some
            \<lparr>cfg_activeAccountId = Some ''acc_1_a'',
               cfg_accounts =
                 [\<lparr>cfg_id = ''acc_1_a'', cfg_name = ''Sales'',
                     cfg_phone = Some ''15551234567'', cfg_createdAt = 1\<rparr>,
                  \<lparr>cfg_id = ''acc_2_b'', cfg_name = ''Account 2'',
                     cfg_phone = None, cfg_createdAt = 2\<rparr>]\<rparr>,
         deletedMessagesFile = None, diskWritable = True,
         emitted =
           [AccountCreated ''acc_1_a'' ''Sales'',
            AccountCreated ''acc_2_b'' ''Account 2'', Authenticated ''acc_1_a'',
            Ready ''acc_1_a'', Message ''acc_1_a''],
         calls = [Construct 0, Initialize 0],
         timers =
           [(20000, CheckReady ''acc_1_a'' 0), (10000, ReadySettle ''acc_1_a'')],
         wired = [(0, ''acc_1_a'')]\<rparr>"
  unfolding messaged_1_def signalled_1_value
  by (simp add: deliver_def on_message_def healthy_def truthy_def saveAccountsConfig_def config_of_def to_saved_def update_account_def emit_def call_out_def setTimeout_def Let_def)





lemma switch_failed_value:
  "switch_failed =
     \<lparr>accounts =
         [(''acc_1_a'',
           \<lparr>acct_id = ''acc_1_a'', name = ''Sales'', phone = None, createdAt = 1,
              client = None, isReady = False, isAuthenticated = False,
              isInitializing = False, qrCode = None, hasStoredSession = False\<rparr>),
          (''acc_2_b'',
           \<lparr>acct_id = ''acc_2_b'', name = ''Account 2'', phone = None,
              createdAt = 2, client = Some 0, isReady = False,
              isAuthenticated = False, isInitializing = False, qrCode = None,
              hasStoredSession = False\<rparr>)],
         activeAccountId = Some ''acc_2_b'', deletedMessages = [],
         chatsCache = Falsy, chatsCacheTime = 0,
         configFile =
           Some
            \<lparr>cfg_activeAccountId = Some ''acc_2_b'',
               cfg_accounts =
                 [\<lparr>cfg_id = ''acc_1_a'', cfg_name = ''Sales'', cfg_phone = None,
                     cfg_createdAt = 1\<rparr>,
                  \<lparr>cfg_id = ''acc_2_b'', cfg_name = ''Account 2'',
                     cfg_phone = None, cfg_createdAt = 2\<rparr>]\<rparr>,
         deletedMessagesFile = None, diskWritable = True,
         emitted =
           [AccountCreated ''acc_1_a'' ''Sales'',
            AccountCreated ''acc_2_b'' ''Account 2''],
         calls = [Construct 0, Initialize 0], timers = [],
         wired = [(0, ''acc_2_b'')]\<rparr>"
  unfolding switch_failed_def two_accounts_value
  by (simp add: switchAccount_def activate_def has_account_def truthy_def current_account_def initializeAccount_def start_fails_def saveAccountsConfig_def config_of_def to_saved_def update_account_def emit_def call_out_def setTimeout_def Let_def)

subsection \<open>The round trip through the file\<close>

lemma or_null_id: "v \<noteq> Some [] \<Longrightarrow> or_null v = v"
  by (cases v) (auto simp: or_null_def truthy_def)

lemma Map_set_fresh: "k \<notin> fst ` set m \<Longrightarrow> Map_set k v m = m @ [(k, v)]"
  by (induction m) auto

lemma load_foldl:
  "distinct (map cfg_id xs) \<Longrightarrow> set (map cfg_id xs) \<inter> fst ` set (accounts st) = {} \<Longrightarrow>
   accounts (foldl (\<lambda>st acc. st\<lparr>accounts :=
                    Map_set (cfg_id acc) (loaded_account (se (cfg_id acc)) acc) (accounts st)\<rparr>)
              st xs)
     = accounts st @ map (\<lambda>acc. (cfg_id acc, loaded_account (se (cfg_id acc)) acc)) xs"
proof (induction xs arbitrary: st)
  case Nil
  then show ?case by simp
next
  case (Cons x xs)
  let ?st = "st\<lparr>accounts := Map_set (cfg_id x) (loaded_account (se (cfg_id x)) x) (accounts st)\<rparr>"
  have fresh: "cfg_id x \<notin> fst ` set (accounts st)" using Cons.prems(2) by auto
  then have step: "accounts ?st = accounts st @ [(cfg_id x, loaded_account (se (cfg_id x)) x)]"
    by (simp add: Map_set_fresh)
  have "distinct (map cfg_id xs)" using Cons.prems(1) by simp
  moreover have "set (map cfg_id xs) \<inter> fst ` set (accounts ?st) = {}"
    unfolding step using Cons.prems by auto
  ultimately have "accounts (foldl (\<lambda>st acc. st\<lparr>accounts :=
                    Map_set (cfg_id acc) (loaded_account (se (cfg_id acc)) acc) (accounts st)\<rparr>)
              ?st xs)
     = accounts ?st @ map (\<lambda>acc. (cfg_id acc, loaded_account (se (cfg_id acc)) acc)) xs"
    by (rule Cons.IH)
  then show ?case unfolding step by simp
qed

lemma load_foldl_active:
  "activeAccountId (foldl (\<lambda>st acc. st\<lparr>accounts := f acc st\<rparr>) st xs) = activeAccountId st"
  by (induction xs arbitrary: st) auto

lemma accounts_loadDeletedMessages: "accounts (loadDeletedMessages s) = accounts s"
  by (simp add: loadDeletedMessages_def split: option.splits)

lemma activeAccountId_loadDeletedMessages:
  "activeAccountId (loadDeletedMessages s) = activeAccountId s"
  by (simp add: loadDeletedMessages_def split: option.splits)

lemma configFile_saveAccountsConfig:
  "diskWritable s \<Longrightarrow> configFile (saveAccountsConfig s) = Some (config_of s)"
  by (simp add: saveAccountsConfig_def)

lemma accounts_reloaded:
  assumes "accounts_ok s" "diskWritable s"
  shows "accounts (new_manager (configFile (saveAccountsConfig s)) ledger w se)
     = map (\<lambda>e. (acct_id (snd e), loaded_account (se (acct_id (snd e))) (to_saved (snd e))))
         (accounts s)"
proof -
  have ids: "map (\<lambda>e. acct_id (snd e)) (accounts s) = map fst (accounts s)"
    using assms(1) by (auto simp: accounts_ok_def list_all_iff)
  have d: "distinct (map cfg_id (map (\<lambda>e. to_saved (snd e)) (accounts s)))"
    using assms(1) by (simp add: o_def ids accounts_ok_def to_saved_def)
  show ?thesis
    unfolding new_manager_def accounts_loadDeletedMessages loadAccountsConfig_def
    using assms(2) d
    by (simp add: configFile_saveAccountsConfig config_of_def load_foldl o_def to_saved_def)
qed

lemma activeAccountId_reloaded:
  assumes "diskWritable s" "activeAccountId s \<noteq> Some []"
  shows "activeAccountId (new_manager (configFile (saveAccountsConfig s)) ledger w se)
     = activeAccountId s"
  unfolding new_manager_def activeAccountId_loadDeletedMessages loadAccountsConfig_def
  using assms
  by (simp add: configFile_saveAccountsConfig config_of_def load_foldl_active or_null_id)

text \<open>
  C9.  Let the Map of accounts be as the code builds it, let no phone and no pointer be the
  empty string, and let the write succeed.  A manager constructed from the file that
  \<^verbatim>\<open>saveAccountsConfig\<close> wrote has the same accounts in the same order with the same
  keys, ids, names, phones and creation times, and the same pointer to the active
  account; every account of it has no client, is not ready, not authenticated and not
  initializing, and has no QR code.
\<close>

theorem accounts_config_roundtrip:
  assumes "accounts_ok s" and "strings_ok s" and "diskWritable s"
  shows "saved_view (new_manager (configFile (saveAccountsConfig s)) ledger w se) = saved_view s \<and>
     activeAccountId (new_manager (configFile (saveAccountsConfig s)) ledger w se)
       = activeAccountId s \<and>
     list_all (\<lambda>e. uninitialized (snd e))
       (accounts (new_manager (configFile (saveAccountsConfig s)) ledger w se))"
proof (intro conjI)
  have keys: "list_all (\<lambda>e. acct_id (snd e) = fst e) (accounts s)"
    using assms(1) by (auto simp: accounts_ok_def list_all_iff)
  have phones: "list_all (\<lambda>e. or_null (phone (snd e)) = phone (snd e)) (accounts s)"
    using assms(2) by (auto simp: strings_ok_def list_all_iff or_null_id)
  show "saved_view (new_manager (configFile (saveAccountsConfig s)) ledger w se) = saved_view s"
    unfolding saved_view_def accounts_reloaded [OF assms(1,3)]
    using keys phones by (auto simp: list_all_iff loaded_account_def to_saved_def)
  show "activeAccountId (new_manager (configFile (saveAccountsConfig s)) ledger w se)
       = activeAccountId s"
    using assms(2,3) by (simp add: activeAccountId_reloaded strings_ok_def)
  show "list_all (\<lambda>e. uninitialized (snd e))
       (accounts (new_manager (configFile (saveAccountsConfig s)) ledger w se))"
    unfolding accounts_reloaded [OF assms(1,3)]
    by (simp add: list_all_iff loaded_account_def uninitialized_def)
qed


theorem accounts_config_roundtrip_witness:
  "accounts_ok signalled_1 \<and> strings_ok signalled_1 \<and> diskWritable signalled_1 \<and>
   \<not> list_all (\<lambda>e. uninitialized (snd e)) (accounts signalled_1) \<and>
   saved_view (new_manager (configFile (saveAccountsConfig signalled_1)) None True (\<lambda>p. True))
     = [(''acc_1_a'', ''acc_1_a'', ''Sales'', Some ''15551234567'', 1),
        (''acc_2_b'', ''acc_2_b'', ''Account 2'', None, 2)] \<and>
   activeAccountId
     (new_manager (configFile (saveAccountsConfig signalled_1)) None True (\<lambda>p. True))
     = Some ''acc_1_a'' \<and>
   list_all (\<lambda>e. uninitialized (snd e))
     (accounts (new_manager (configFile (saveAccountsConfig signalled_1)) None True (\<lambda>p. True)))"
proof -
  have ok: "accounts_ok signalled_1"
    unfolding signalled_1_value by (simp add: accounts_ok_def)
  have str: "strings_ok signalled_1"
    unfolding signalled_1_value by (simp add: strings_ok_def)
  have disk: "diskWritable signalled_1"
    unfolding signalled_1_value by simp
  have live: "\<not> list_all (\<lambda>e. uninitialized (snd e)) (accounts signalled_1)"
    unfolding signalled_1_value by (simp add: uninitialized_def)
  have view: "saved_view signalled_1
     = [(''acc_1_a'', ''acc_1_a'', ''Sales'', Some ''15551234567'', 1),
        (''acc_2_b'', ''acc_2_b'', ''Account 2'', None, 2)]"
    unfolding signalled_1_value by (simp add: saved_view_def)
  have act: "activeAccountId signalled_1 = Some ''acc_1_a''"
    unfolding signalled_1_value by simp
  show ?thesis
    using accounts_config_roundtrip [OF ok str disk, of None True "\<lambda>p. True"]
      ok str disk live view act
    by simp
qed


subsection \<open>The Map of accounts stays as the code builds it\<close>

lemma accounts_ok_first_start: "accounts_ok first_start"
  by (simp add: accounts_ok_def)

lemma accounts_ok_cong:
  "map (\<lambda>e. (fst e, acct_id (snd e))) (accounts s')
     = map (\<lambda>e. (fst e, acct_id (snd e))) (accounts s)
   \<Longrightarrow> accounts_ok s' = accounts_ok s"
proof -
  assume h: "map (\<lambda>e. (fst e, acct_id (snd e))) (accounts s')
      = map (\<lambda>e. (fst e, acct_id (snd e))) (accounts s)"
  have k: "map fst (accounts t) = map fst (map (\<lambda>e. (fst e, acct_id (snd e))) (accounts t))" for t
    by simp
  have l: "list_all (\<lambda>e. acct_id (snd e) = fst e \<and> fst e \<noteq> []) (accounts t)
     = list_all (\<lambda>p. snd p = fst p \<and> fst p \<noteq> [])
         (map (\<lambda>e. (fst e, acct_id (snd e))) (accounts t))" for t
    by (simp add: list_all_iff)
  show ?thesis unfolding accounts_ok_def l k [of s'] k [of s] h ..
qed

lemma key_ids_update_account:
  "(\<And>a. acct_id (f a) = acct_id a) \<Longrightarrow> key_ids (update_account k f s) = key_ids s"
  by (simp add: key_ids_def update_account_def)

lemma key_ids_simps:
  "key_ids (emit e s) = key_ids s" "key_ids (call_out c s) = key_ids s"
  "key_ids (setTimeout t d s) = key_ids s" "key_ids (saveAccountsConfig s) = key_ids s"
  "key_ids (s\<lparr>wired := w\<rparr>) = key_ids s" "key_ids (s\<lparr>timers := ts\<rparr>) = key_ids s"
  "key_ids (s\<lparr>activeAccountId := p\<rparr>) = key_ids s"
  "key_ids (s\<lparr>chatsCache := cc, chatsCacheTime := ct\<rparr>) = key_ids s"
  "key_ids (s\<lparr>deletedMessages := dm\<rparr>) = key_ids s"
  by (simp_all add: key_ids_def emit_def call_out_def setTimeout_def saveAccountsConfig_def)

lemmas key_ids_all = key_ids_simps key_ids_update_account

lemma key_ids_reschedule: "key_ids (reschedule k n s) = key_ids s"
  by (simp add: reschedule_def key_ids_all)

lemma key_ids_mark_ready: "key_ids (mark_ready k s) = key_ids s"
  by (simp add: mark_ready_def key_ids_all)

lemma key_ids_checkAndSetReady: "key_ids (checkAndSetReady k n view s) = key_ids s"
  by (simp add: checkAndSetReady_def Let_def key_ids_all key_ids_reschedule key_ids_mark_ready
      split: option.split page.split fetch.split info.split)

lemma key_ids_saveDeletedMessage: "key_ids (saveDeletedMessage m s) = key_ids s"
  by (simp add: key_ids_def saveDeletedMessage_def saveDeletedMessages_def)

lemma key_ids_deliver: "key_ids (deliver h ev v s) = key_ids s"
  by (simp add: deliver_def on_qr_def on_loading_screen_def on_ready_def on_authenticated_def
      on_auth_failure_def on_disconnected_def on_message_def on_message_create_def
      on_message_revoke_everyone_def Let_def key_ids_all key_ids_saveDeletedMessage
      split: option.split client_event.split info.split)

lemma key_ids_fire: "key_ids (fire i view s) = key_ids s"
  by (simp add: fire_def Let_def key_ids_all key_ids_mark_ready key_ids_checkAndSetReady
      split: timer.split option.split)


lemma key_ids_run_steps: "key_ids (run_steps steps s) = key_ids s"
  by (induction steps s rule: run_steps.induct) (simp_all add: key_ids_deliver key_ids_fire)

lemma key_ids_initializeAccount: "key_ids (snd (initializeAccount k env s)) = key_ids s"
  by (simp add: initializeAccount_def Let_def key_ids_all key_ids_run_steps split: option.split)

lemma key_ids_activate: "key_ids (activate k s) = key_ids s"
  by (simp add: activate_def Let_def key_ids_all)

lemma key_ids_switchAccount: "key_ids (snd (switchAccount k env s)) = key_ids s"
  by (simp add: switchAccount_def Let_def key_ids_all key_ids_initializeAccount key_ids_activate
      split: option.split sum.split)

lemma key_ids_getChats: "key_ids (snd (getChats now view s)) = key_ids s"
  by (simp add: getChats_def Let_def key_ids_all
      split: option.split prod.split page.split fetch.split info.split)

lemma accounts_ok_key_ids: "key_ids s' = key_ids s \<Longrightarrow> accounts_ok s' = accounts_ok s"
  unfolding key_ids_def by (rule accounts_ok_cong)

text \<open>On a first start the Map is well formed, and initializing, switching, reading the
  chats, the handlers of a client and the timers keep it so, as creating and deleting
  accounts do.\<close>

lemma accounts_ok_preserved:
  "accounts_ok (snd (initializeAccount k env s)) = accounts_ok s"
  "accounts_ok (snd (switchAccount k env s)) = accounts_ok s"
  "accounts_ok (snd (getChats now view s)) = accounts_ok s"
  "accounts_ok (checkAndSetReady k n view s) = accounts_ok s"
  "accounts_ok (deliver h ev v s) = accounts_ok s"
  "accounts_ok (fire i view s) = accounts_ok s"
  by (rule accounts_ok_key_ids, simp add: key_ids_initializeAccount key_ids_switchAccount
      key_ids_getChats key_ids_checkAndSetReady key_ids_deliver key_ids_fire)+

subsection \<open>What events and timers leave alone\<close>

lemma untouched_refl: "untouched s s"
  by (simp add: untouched_def)

lemma untouched_trans: "untouched s'' s' \<Longrightarrow> untouched s' s \<Longrightarrow> untouched s'' s"
  by (simp add: untouched_def)

lemma untouched_simps:
  "untouched (emit e s) s' = untouched s s'"
  "untouched (call_out (GetChats h) s) s' = untouched s s'"
  "untouched (setTimeout t d s) s' = untouched s s'"
  "untouched (update_account k f s) s' = untouched s s'"
  "untouched (saveAccountsConfig s) s' = untouched s s'"
  "untouched (saveDeletedMessage m s) s' = untouched s s'"
  "untouched (s\<lparr>timers := ts\<rparr>) s' = untouched s s'"
  by (simp_all add: untouched_def initializations_def emit_def call_out_def setTimeout_def
      update_account_def saveAccountsConfig_def saveDeletedMessage_def saveDeletedMessages_def)

lemma untouched_reschedule: "untouched (reschedule k n s) s' = untouched s s'"
  by (simp add: reschedule_def untouched_simps)

lemma untouched_mark_ready: "untouched (mark_ready k s) s' = untouched s s'"
  by (simp add: mark_ready_def untouched_simps)

lemma untouched_checkAndSetReady: "untouched (checkAndSetReady k n view s) s"
  by (simp add: checkAndSetReady_def Let_def untouched_simps untouched_reschedule
      untouched_mark_ready untouched_refl
      split: option.split page.split fetch.split info.split)

lemma untouched_deliver: "untouched (deliver h ev v s) s"
  by (simp add: deliver_def on_qr_def on_loading_screen_def on_ready_def on_authenticated_def
      on_auth_failure_def on_disconnected_def on_message_def on_message_create_def
      on_message_revoke_everyone_def Let_def untouched_simps untouched_refl
      split: option.split client_event.split info.split)

lemma untouched_fire: "untouched (fire i view s) s"
proof -
  have t: "untouched (s\<lparr>timers := ts\<rparr>) s" for ts
    by (simp add: untouched_simps untouched_refl)
  have c: "untouched (checkAndSetReady k n view (s\<lparr>timers := ts\<rparr>)) s" for k n ts
    using untouched_trans [OF untouched_checkAndSetReady t] .
  show ?thesis
    by (simp add: fire_def Let_def untouched_mark_ready untouched_simps untouched_refl c
        split: timer.split option.split)
qed

lemma untouched_run_steps: "untouched (run_steps steps s) s"
proof (induction steps s rule: run_steps.induct)
  case (1 s)
  show ?case by (simp add: untouched_refl)
next
  case (2 h ev v rest s)
  then show ?case using untouched_trans untouched_deliver by fastforce
next
  case (3 i view rest s)
  then show ?case using untouched_trans untouched_fire by fastforce
qed

lemma run_steps_fields:
  "chatsCache (run_steps steps s) = chatsCache s"
  "chatsCacheTime (run_steps steps s) = chatsCacheTime s"
  "wired (run_steps steps s) = wired s"
  "activeAccountId (run_steps steps s) = activeAccountId s"
  "diskWritable (run_steps steps s) = diskWritable s"
  "initializations (run_steps steps s) = initializations s"
  using untouched_run_steps [of steps s] by (simp_all add: untouched_def)

text \<open>The file stays what \<^verbatim>\<open>saveAccountsConfig\<close> would write: a handler that changes
  the phone saves the file, and the other fields the handlers write are not saved.\<close>

lemma Map_get_update:
  "Map_get (map (\<lambda>e. if fst e = k then (fst e, f (snd e)) else e) m) k' =
     (if k' = k then map_option f (Map_get m k') else Map_get m k')"
  by (induction m) auto

lemma Map_get_update_account:
  "Map_get (accounts (update_account k f s)) k' =
     (if k' = k then map_option f (Map_get (accounts s) k') else Map_get (accounts s) k')"
  by (simp add: update_account_def Map_get_update)

lemma to_saved_update:
  "(\<And>a. to_saved (f a) = to_saved a) \<Longrightarrow>
   map (\<lambda>e. to_saved (snd e)) (map (\<lambda>e. if fst e = k then (fst e, f (snd e)) else e) m)
     = map (\<lambda>e. to_saved (snd e)) m"
  by (induction m) auto

lemma config_of_update_account:
  "(\<And>a. to_saved (f a) = to_saved a) \<Longrightarrow> config_of (update_account k f s) = config_of s"
  by (simp add: config_of_def update_account_def to_saved_update)

lemma config_of_call_out: "config_of (call_out c s) = config_of s"
  by (simp add: config_of_def call_out_def)

lemma config_of_wired: "config_of (s\<lparr>wired := w\<rparr>) = config_of s"
  by (simp add: config_of_def)

lemma synced_save: "synced (saveAccountsConfig s)"
  by (simp add: synced_def saveAccountsConfig_def config_of_def)

lemma save_synced_id: "synced s \<Longrightarrow> saveAccountsConfig s = s"
  by (simp add: synced_def saveAccountsConfig_def)

lemma synced_update_account:
  "(\<And>a. to_saved (f a) = to_saved a) \<Longrightarrow> synced (update_account k f s) = synced s"
  by (simp add: synced_def config_of_update_account) (simp add: update_account_def)

lemma synced_simps:
  "synced (emit e s) = synced s" "synced (call_out c s) = synced s"
  "synced (setTimeout t d s) = synced s" "synced (saveDeletedMessage m s) = synced s"
  "synced (s\<lparr>timers := ts\<rparr>) = synced s" "synced (s\<lparr>wired := w\<rparr>) = synced s"
  by (simp_all add: synced_def config_of_def emit_def call_out_def setTimeout_def
      saveDeletedMessage_def saveDeletedMessages_def)

lemmas synced_all = synced_simps synced_save synced_update_account to_saved_def

lemma synced_reschedule: "synced (reschedule k n s) = synced s"
  by (simp add: reschedule_def synced_simps)

lemma synced_mark_ready: "synced (mark_ready k s) = synced s"
  by (simp add: mark_ready_def synced_all)

lemma synced_checkAndSetReady: "synced s \<Longrightarrow> synced (checkAndSetReady k n view s)"
  by (simp add: checkAndSetReady_def Let_def synced_all synced_reschedule synced_mark_ready
      split: option.split page.split fetch.split info.split)

lemma synced_deliver: "synced s \<Longrightarrow> synced (deliver h ev v s)"
  by (simp add: deliver_def on_qr_def on_loading_screen_def on_ready_def on_authenticated_def
      on_auth_failure_def on_disconnected_def on_message_def on_message_create_def
      on_message_revoke_everyone_def Let_def synced_all
      split: option.split client_event.split info.split)

lemma synced_fire: "synced s \<Longrightarrow> synced (fire i view s)"
  by (simp add: fire_def Let_def synced_all synced_mark_ready synced_checkAndSetReady
      split: timer.split option.split)

lemma synced_run_steps: "synced s \<Longrightarrow> synced (run_steps steps s)"
  by (induction steps s rule: run_steps.induct) (simp_all add: synced_deliver synced_fire)

text \<open>No handler and no timer gives an account another client, and none but the
  handlers of \<^verbatim>\<open>auth_failure\<close> and \<^verbatim>\<open>disconnected\<close> takes an account out of
  initializing or ready.\<close>

lemma accounts_simps:
  "accounts (setTimeout t d s) = accounts s" "accounts (saveDeletedMessage m s) = accounts s"
  by (simp_all add: setTimeout_def saveDeletedMessage_def saveDeletedMessages_def)

lemma client_reschedule:
  "map_option client (Map_get (accounts (reschedule k' n s)) k)
     = map_option client (Map_get (accounts s) k)"
  by (simp add: reschedule_def accounts_simps)

lemma client_mark_ready:
  "map_option client (Map_get (accounts (mark_ready k' s)) k)
     = map_option client (Map_get (accounts s) k)"
  by (simp add: mark_ready_def accounts_simps Map_get_update_account option.map_comp comp_def)

lemma client_checkAndSetReady:
  "map_option client (Map_get (accounts (checkAndSetReady k' n view s)) k)
     = map_option client (Map_get (accounts s) k)"
  by (simp add: checkAndSetReady_def Let_def accounts_simps Map_get_update_account
      client_reschedule client_mark_ready option.map_comp comp_def
      split: option.split page.split fetch.split info.split)

lemma client_deliver:
  "map_option client (Map_get (accounts (deliver h ev v s)) k)
     = map_option client (Map_get (accounts s) k)"
  by (simp add: deliver_def on_qr_def on_loading_screen_def on_ready_def on_authenticated_def
      on_auth_failure_def on_disconnected_def on_message_def on_message_create_def
      on_message_revoke_everyone_def Let_def accounts_simps Map_get_update_account
      option.map_comp comp_def
      split: option.split client_event.split info.split)

lemma client_fire:
  "map_option client (Map_get (accounts (fire i view s)) k)
     = map_option client (Map_get (accounts s) k)"
proof -
  have c: "map_option client (Map_get (accounts (checkAndSetReady k' n view (s\<lparr>timers := ts\<rparr>))) k)
     = map_option client (Map_get (accounts s) k)" for k' n ts
    using client_checkAndSetReady [of k' n view "s\<lparr>timers := ts\<rparr>" k] by simp
  have m: "map_option client (Map_get (accounts (mark_ready k' (s\<lparr>timers := ts\<rparr>))) k)
     = map_option client (Map_get (accounts s) k)" for k' ts
    using client_mark_ready [of k' "s\<lparr>timers := ts\<rparr>" k] by simp
  show ?thesis
    by (simp add: fire_def Let_def c m split: timer.split option.split)
qed

lemma client_run_steps:
  "map_option client (Map_get (accounts (run_steps steps s)) k)
     = map_option client (Map_get (accounts s) k)"
  by (induction steps s rule: run_steps.induct) (simp_all add: client_deliver client_fire)

lemma progressing_reschedule:
  "Map_get (accounts (reschedule k' n s)) k = Map_get (accounts s) k"
  by (simp add: reschedule_def accounts_simps)

lemma progressing_mark_ready:
  assumes "Map_get (accounts s) k = Some a" and "progressing a"
  shows "\<exists>a'. Map_get (accounts (mark_ready k' s)) k = Some a' \<and> progressing a'"
  using assms by (auto simp: mark_ready_def accounts_simps Map_get_update_account progressing_def)

lemma progressing_checkAndSetReady:
  assumes "Map_get (accounts s) k = Some a" and "progressing a"
  shows "\<exists>a'. Map_get (accounts (checkAndSetReady k' n view s)) k = Some a' \<and> progressing a'"
proof -
  have p: "\<exists>a'. Map_get (accounts (update_account k' (\<lambda>a. a\<lparr>phone := p\<rparr>) t)) k = Some a'
      \<and> progressing a'" if "Map_get (accounts t) k = Some a" for t p
    using that assms(2) by (auto simp: Map_get_update_account progressing_def)
  have c: "Map_get (accounts (call_out c s)) k = Some a" for c
    using assms(1) by (simp add: accounts_simps)
  have m: "\<exists>a'. Map_get (accounts (mark_ready k' t)) k = Some a' \<and> progressing a'"
    if "\<exists>b. Map_get (accounts t) k = Some b \<and> progressing b" for t
    using that progressing_mark_ready by blast
  have s: "\<exists>b. Map_get (accounts (saveAccountsConfig t)) k = Some b \<and> progressing b"
    if "\<exists>b. Map_get (accounts t) k = Some b \<and> progressing b" for t
    using that by (simp add: accounts_simps)
  show ?thesis
    using assms c
    by (simp add: checkAndSetReady_def Let_def progressing_reschedule m s p
        split: option.split page.split fetch.split info.split)
qed

lemma progressing_deliver:
  assumes "Map_get (accounts s) k = Some a" and "progressing a"
    and "ev \<noteq> EvAuthFailure" and "ev \<noteq> EvDisconnected"
  shows "\<exists>a'. Map_get (accounts (deliver h ev v s)) k = Some a' \<and> progressing a'"
proof (cases "map_of (wired s) h")
  case None
  then show ?thesis using assms by (simp add: deliver_def)
next
  case (Some k')
  show ?thesis
  proof (cases "Map_get (accounts s) k'")
    case None
    then show ?thesis using assms Some by (simp add: deliver_def)
  next
    case acc: (Some acc)
    have same: "k = k' \<Longrightarrow> acc = a" using acc assms(1) by simp
    show ?thesis
    proof (cases ev)
      case (EvQr qr)
      then show ?thesis using assms Some acc
        by (auto simp: deliver_def on_qr_def accounts_simps Map_get_update_account
            progressing_def)
    next
      case (EvLoadingScreen percent)
      then show ?thesis using assms Some acc
        by (simp add: deliver_def on_loading_screen_def accounts_simps Let_def)
    next
      case EvReady
      then show ?thesis using assms Some acc
        by (auto simp: deliver_def on_ready_def accounts_simps Map_get_update_account
            progressing_def Let_def split: info.split)
    next
      case EvAuthenticated
      then show ?thesis using assms Some acc
        by (auto simp: deliver_def on_authenticated_def accounts_simps Map_get_update_account
            progressing_def)
    next
      case EvAuthFailure
      then show ?thesis using assms by simp
    next
      case EvDisconnected
      then show ?thesis using assms by simp
    next
      case EvMessage
      then show ?thesis using assms Some acc same
        by (auto simp: deliver_def on_message_def accounts_simps Map_get_update_account
            progressing_def Let_def split: info.split)
    next
      case (EvMessageCreate msgFromMe)
      then show ?thesis using assms Some acc
        by (simp add: deliver_def on_message_create_def accounts_simps)
    next
      case (EvRevoke msgFrom msgTo revokedMsg now)
      then show ?thesis using assms Some acc
        by (simp add: deliver_def on_message_revoke_everyone_def accounts_simps Let_def
            split: option.split)
    qed
  qed
qed

lemma progressing_fire:
  assumes "Map_get (accounts s) k = Some a" and "progressing a"
  shows "\<exists>a'. Map_get (accounts (fire i view s)) k = Some a' \<and> progressing a'"
proof -
  have t: "Map_get (accounts (s\<lparr>timers := ts\<rparr>)) k = Some a" for ts
    using assms(1) by simp
  show ?thesis
    using assms progressing_checkAndSetReady [OF t assms(2)] progressing_mark_ready [OF t assms(2)]
    by (simp add: fire_def Let_def split: timer.split option.split)
qed

lemma progressing_run_steps:
  assumes "list_all benign steps" and "Map_get (accounts s) k = Some a" and "progressing a"
  shows "\<exists>a'. Map_get (accounts (run_steps steps s)) k = Some a' \<and> progressing a'"
  using assms
proof (induction steps s arbitrary: a rule: run_steps.induct)
  case (1 s)
  then show ?case by simp
next
  case (2 h ev v rest s)
  from 2(2) have b: "ev \<noteq> EvAuthFailure" "ev \<noteq> EvDisconnected" "list_all benign rest"
    by simp_all
  from progressing_deliver [OF 2(3) 2(4) b(1) b(2)] obtain a'
    where "Map_get (accounts (deliver h ev v s)) k = Some a'" "progressing a'" by blast
  from 2(1) [OF b(3) this] show ?case by simp
next
  case (3 i view rest s)
  from 3(2) have b: "list_all benign rest" by simp
  from progressing_fire [OF 3(3) 3(4)] obtain a'
    where "Map_get (accounts (fire i view s)) k = Some a'" "progressing a'" by blast
  from 3(1) [OF b this] show ?case by simp
qed


subsection \<open>Reading the chats\<close>

lemma getChats_Inr: "\<exists>v. fst (getChats now view s) = Inr v"
  by (simp add: getChats_def Let_def
      split: option.split prod.split page.split info.split fetch.split)

lemma getChats_no_active:
  "getActiveAccount s = None \<Longrightarrow> getChats now view s = (Inr (Chats []), s)"
  by (simp add: getChats_def)

lemma getChats_no_session:
  "getActiveAccount s = Some (k, acc) \<Longrightarrow>
   client acc = None \<or> (\<not> isReady acc \<and> \<not> isAuthenticated acc) \<Longrightarrow>
   getChats now view s = (Inr (Chats []), s)"
  by (auto simp: getChats_def split: option.split)

lemma cache_or_empty_truthy: "is_truthy (chatsCache s) \<Longrightarrow> cache_or_empty s = chatsCache s"
  by (simp add: cache_or_empty_def)

lemma getChats_no_page:
  "getActiveAccount s = Some (k, acc) \<Longrightarrow> client acc = Some h \<Longrightarrow>
   isReady acc \<or> isAuthenticated acc \<Longrightarrow>
   pupPage (view h) \<noteq> PageOpen \<or> \<not> hasGetChats (view h) \<Longrightarrow>
   getChats now view s = (Inr (cache_or_empty s), s)"
  by (auto simp: getChats_def cache_or_empty_truthy split: page.split)





lemma getChats_cached:
  "getActiveAccount s = Some (k, acc) \<Longrightarrow> client acc = Some h \<Longrightarrow>
   isReady acc \<or> isAuthenticated acc \<Longrightarrow> is_truthy (chatsCache s) \<Longrightarrow>
   int now - int (chatsCacheTime s) < chatsCacheDuration \<Longrightarrow>
   getChats now view s = (Inr (chatsCache s), s)"
  by (auto simp: getChats_def)





text \<open>
  C3, as stated, fails.  The first account of two is active, ready and authenticated and
  has client 0; its chats were read at time 100000, so the cache holds them.  At time
  200000 the page of the client is closed, and \<^verbatim>\<open>getChats\<close> returns the chat
  \<^verbatim>\<open>123@c.us\<close> of the cache, not the empty list.
\<close>

theorem getChats_closed_page_counterexample:
  "activeAccountId fetched_1 = Some ''acc_1_a'' \<and>
   map_option client (Map_get (accounts fetched_1) ''acc_1_a'') = Some (Some 0) \<and>
   map_option isAuthenticated (Map_get (accounts fetched_1) ''acc_1_a'') = Some True \<and>
   pupPage (page_closed 0) = PageClosed \<and>
   fst (getChats 200000 page_closed fetched_1) = Inr (Chats [''123@c.us'']) \<and>
   fst (getChats 200000 page_closed fetched_1) \<noteq> Inr (Chats [])"
  unfolding fetched_1_value
  by (simp add: getChats_def getActiveAccount_def or_null_def truthy_def page_closed_def
      healthy_def chatsCacheDuration_def cache_or_empty_def)

text \<open>
  C3, amended.  \<^verbatim>\<open>getChats\<close> never throws.  It returns the empty list and leaves the
  manager as it is when there is no active account, when the active account has no
  client, and when the account is neither ready nor authenticated.  When the account has
  a client and is ready or authenticated, and the page of the client is absent or closed,
  its check throws, or the client has no \<^verbatim>\<open>getChats\<close>, it returns the cached value
  if there is one, however old, and the empty list only if there is none.
\<close>

theorem getChats_fails_softly:
  "(\<exists>v. fst (getChats now view s) = Inr v) \<and>
   (getActiveAccount s = None \<longrightarrow> getChats now view s = (Inr (Chats []), s)) \<and>
   (getActiveAccount s = Some (k, acc)
      \<and> (client acc = None \<or> (\<not> isReady acc \<and> \<not> isAuthenticated acc)) \<longrightarrow>
      getChats now view s = (Inr (Chats []), s)) \<and>
   (getActiveAccount s = Some (k, acc) \<and> client acc = Some h
      \<and> (isReady acc \<or> isAuthenticated acc)
      \<and> (pupPage (view h) \<noteq> PageOpen \<or> \<not> hasGetChats (view h)) \<longrightarrow>
      getChats now view s
        = (Inr (if is_truthy (chatsCache s) then chatsCache s else Chats []), s))"
  using getChats_Inr [of now view s] getChats_no_active [of s now view]
    getChats_no_session [of s k acc now view] getChats_no_page [of s k acc h view now]
  unfolding cache_or_empty_def by blast

theorem getChats_fails_softly_witness:
  "getActiveAccount first_start = None \<and>
   getChats 100000 healthy first_start = (Inr (Chats []), first_start) \<and>
   map_option fst (getActiveAccount two_accounts) = Some ''acc_1_a'' \<and>
   map_option (client \<circ> snd) (getActiveAccount two_accounts) = Some None \<and>
   getChats 100000 healthy two_accounts = (Inr (Chats []), two_accounts) \<and>
   map_option (client \<circ> snd) (getActiveAccount fetched_1) = Some (Some 0) \<and>
   map_option (isReady \<circ> snd) (getActiveAccount fetched_1) = Some True \<and>
   pupPage (page_closed 0) \<noteq> PageOpen \<and>
   getChats 200000 page_closed fetched_1 = (Inr (Chats [''123@c.us'']), fetched_1)"
proof -
  have n: "getActiveAccount first_start = None"
    by (simp add: first_start_def new_manager_def loadAccountsConfig_def
        loadDeletedMessages_def getActiveAccount_def or_null_def truthy_def)
  obtain a where a: "getActiveAccount two_accounts = Some (''acc_1_a'', a)" "client a = None"
    unfolding two_accounts_value by (simp add: getActiveAccount_def or_null_def truthy_def)
  obtain b where b: "getActiveAccount fetched_1 = Some (''acc_1_a'', b)" "client b = Some 0"
    "isReady b"
    unfolding fetched_1_value by (simp add: getActiveAccount_def or_null_def truthy_def)
  have c: "chatsCache fetched_1 = Chats [''123@c.us'']"
    unfolding fetched_1_value by simp
  have p: "pupPage (page_closed 0) \<noteq> PageOpen"
    by (simp add: page_closed_def healthy_def)
  show ?thesis
    using getChats_fails_softly [of 100000 healthy first_start]
      getChats_fails_softly [of 100000 healthy two_accounts "''acc_1_a''" a]
      getChats_fails_softly [of 200000 page_closed fetched_1 "''acc_1_a''" b 0]
      n a b c p
    by simp
qed






subsection \<open>Switching\<close>

lemma initializations_simps:
  "initializations (call_out c s) = initializations s @ (if is_initialize c then [c] else [])"
  "initializations (update_account k f s) = initializations s"
  "initializations (s\<lparr>wired := w\<rparr>) = initializations s"
  "initializations (emit e s) = initializations s"
  "initializations (saveAccountsConfig s) = initializations s"
  "initializations (s\<lparr>activeAccountId := p\<rparr>) = initializations s"
  by (simp_all add: initializations_def call_out_def update_account_def emit_def
      saveAccountsConfig_def)

lemma wired_simps:
  "wired (call_out c s) = wired s" "wired (update_account k f s) = wired s"
  "wired (emit e s) = wired s" "wired (saveAccountsConfig s) = wired s"
  by (simp_all add: call_out_def update_account_def emit_def saveAccountsConfig_def)

lemma activeAccountId_update_account:
  "activeAccountId (update_account k f s) = activeAccountId s"
  by (simp add: update_account_def)

lemma Map_get_key_ids:
  assumes "key_ids s' = key_ids s"
  shows "(Map_get (accounts s') k = None) = (Map_get (accounts s) k = None)"
proof -
  have "map fst (accounts t) = map fst (key_ids t)" for t
    by (simp add: key_ids_def comp_def)
  then have "map fst (accounts s') = map fst (accounts s)" using assms by simp
  then have "fst ` set (accounts s') = fst ` set (accounts s)"
    by (metis list.set_map)
  then show ?thesis by (simp add: Map_get_None)
qed

lemma initializeAccount_noop:
  "Map_get (accounts s) k = Some acc \<Longrightarrow> isInitializing acc \<Longrightarrow>
   initializeAccount k env s = (Inr (), s)"
  by (simp add: initializeAccount_def)

lemma activeAccountId_initializeAccount:
  "activeAccountId (snd (initializeAccount k env s)) = activeAccountId s"
  by (simp add: initializeAccount_def Let_def run_steps_fields activeAccountId_update_account
      split: option.split)

lemma synced_initializeAccount:
  "synced s \<Longrightarrow> synced (snd (initializeAccount k env s))"
  by (simp add: initializeAccount_def Let_def synced_all synced_run_steps split: option.split)

lemma sessions_initializeAccount:
  assumes "Map_get (accounts s) k = Some acc"
  shows "wired (snd (initializeAccount k env s))
           = (if isInitializing acc \<or> constructThrows env then wired s
              else wired s @ [(length (wired s), k)])"
    and "initializations (snd (initializeAccount k env s))
           = (if isInitializing acc \<or> constructThrows env then initializations s
              else initializations s @ [Initialize (length (wired s))])"
  using assms
  by (simp_all add: initializeAccount_def Let_def run_steps_fields wired_simps
      initializations_simps split: option.split)

text \<open>An initialization that returns, with nothing but benign steps during its two
  waits, leaves the account with a client and initializing or ready.\<close>

lemma initializeAccount_settles:
  assumes acc: "Map_get (accounts s) k = Some acc" and ni: "\<not> isInitializing acc"
    and ret: "fst (initializeAccount k env s) = Inr u"
    and b1: "list_all benign (whileDestroying env)"
    and b2: "list_all benign (whileInitializing env)"
  shows "\<exists>a. Map_get (accounts (snd (initializeAccount k env s))) k = Some a \<and> settled a"
proof -
  from acc ni ret have env: "\<not> constructThrows env" "\<not> initializeThrows env"
    by (auto simp: initializeAccount_def Let_def split: if_splits)
  define s1 where "s1 = update_account k (\<lambda>a. a\<lparr>isInitializing := True\<rparr>) s"
  define s2 where "s2 = (case client acc of None \<Rightarrow> s1
      | Some old \<Rightarrow> run_steps (whileDestroying env) (call_out (Destroy old) s1))"
  define h where "h = length (wired s2)"
  define s6 where "s6 = call_out (Initialize h)
      ((update_account k (\<lambda>a. a\<lparr>client := Some h\<rparr>) (call_out (Construct h) s2))
         \<lparr>wired := wired (update_account k (\<lambda>a. a\<lparr>client := Some h\<rparr>)
                     (call_out (Construct h) s2)) @ [(h, k)]\<rparr>)"
  have eq: "snd (initializeAccount k env s) = run_steps (whileInitializing env) s6"
    unfolding s6_def h_def s2_def s1_def
    using acc ni env by (simp add: initializeAccount_def Let_def)
  have a1: "Map_get (accounts s1) k = Some (acc\<lparr>isInitializing := True\<rparr>)"
    using acc by (simp add: s1_def Map_get_update_account)
  have p1: "progressing (acc\<lparr>isInitializing := True\<rparr>)" by (simp add: progressing_def)
  have "\<exists>a2. Map_get (accounts s2) k = Some a2 \<and> progressing a2"
  proof (cases "client acc")
    case None
    then show ?thesis using a1 p1 by (simp add: s2_def)
  next
    case (Some old)
    have "Map_get (accounts (call_out (Destroy old) s1)) k = Some (acc\<lparr>isInitializing := True\<rparr>)"
      using a1 by simp
    from progressing_run_steps [OF b1 this p1] show ?thesis using Some by (simp add: s2_def)
  qed
  then obtain a2 where a2: "Map_get (accounts s2) k = Some a2" "progressing a2" by blast
  have a6: "Map_get (accounts s6) k = Some (a2\<lparr>client := Some h\<rparr>)"
    using a2(1) by (simp add: s6_def call_out_def update_account_def Map_get_update)
  have p6: "progressing (a2\<lparr>client := Some h\<rparr>)" using a2(2) by (simp add: progressing_def)
  from progressing_run_steps [OF b2 a6 p6] obtain a
    where a: "Map_get (accounts (run_steps (whileInitializing env) s6)) k = Some a"
      "progressing a" by blast
  have "map_option client (Map_get (accounts (run_steps (whileInitializing env) s6)) k)
      = Some (Some h)"
    using a6 by (simp add: client_run_steps)
  then have "client a = Some h" using a(1) by simp
  then have "settled a" using a(2) by (simp add: settled_def progressing_def)
  then show ?thesis using a(1) eq by simp
qed

lemma activate_facts:
  "accounts (activate k s) = accounts s" "activeAccountId (activate k s) = Some k"
  "synced (activate k s)" "wired (activate k s) = wired s"
  "initializations (activate k s) = initializations s"
  by (simp_all add: activate_def Let_def synced_save wired_simps initializations_simps)

lemma switchAccount_unfold:
  assumes "Map_get (accounts s) k = Some acc"
  shows "switchAccount k env s =
     (if settled acc
      then (Inr acc, emit (AccountSwitched k) (activate k s))
      else (case fst (initializeAccount k env (activate k s)) of
              Inl e \<Rightarrow> (Inl e, snd (initializeAccount k env (activate k s)))
            | Inr u \<Rightarrow>
                (Inr (current_account k acc (snd (initializeAccount k env (activate k s)))),
                 emit (AccountSwitched k) (snd (initializeAccount k env (activate k s))))))"
  using assms
  by (auto simp: switchAccount_def Let_def settled_def current_account_def activate_facts)

lemma switchAccount_settled:
  assumes "Map_get (accounts s) k = Some a" and "settled a"
    and "activeAccountId s = Some k" and "synced s"
  shows "switchAccount k env s = (Inr a, emit (AccountSwitched k) s)"
proof -
  have same: "s\<lparr>activeAccountId := Some k\<rparr> = s" using assms(3) by simp
  have "activate k s = saveAccountsConfig (s\<lparr>activeAccountId := Some k\<rparr>)"
    using assms(3) by (simp add: activate_def Let_def)
  then have s2: "activate k s = s"
    unfolding same using assms(4) by (simp add: save_synced_id)
  show ?thesis
    using assms(2) by (simp add: switchAccount_unfold [OF assms(1)] s2)
qed

text \<open>After a \<^verbatim>\<open>switchAccount\<close> that returns, the account it returned is the one stored
  under the key, the pointer is on it, and the file is what a save would write.\<close>

lemma switchAccount_returns:
  assumes "fst (switchAccount k env s) = Inr a"
  shows "Map_get (accounts (snd (switchAccount k env s))) k = Some a"
    and "activeAccountId (snd (switchAccount k env s)) = Some k"
    and "synced (snd (switchAccount k env s))"
proof -
  obtain acc where acc: "Map_get (accounts s) k = Some acc"
    using assms by (cases "Map_get (accounts s) k") (auto simp: switchAccount_def)
  note sw = switchAccount_unfold [OF acc]
  let ?r = "initializeAccount k env (activate k s)"
  have ex: "Map_get (accounts (snd ?r)) k \<noteq> None"
    using Map_get_key_ids [OF key_ids_initializeAccount, of k env "activate k s" k] acc
    by (simp add: activate_facts)
  show "Map_get (accounts (snd (switchAccount k env s))) k = Some a"
    using assms acc ex
    by (auto simp: sw activate_facts current_account_def split: if_splits sum.splits)
  show "activeAccountId (snd (switchAccount k env s)) = Some k"
    using assms
    by (auto simp: sw activate_facts activeAccountId_initializeAccount
        split: if_splits sum.splits)
  show "synced (snd (switchAccount k env s))"
    using assms synced_initializeAccount [of "activate k s" k env]
    by (auto simp: sw activate_facts synced_simps split: if_splits sum.splits)
qed

lemma switchAccount_benign:
  assumes "fst (switchAccount k env s) = Inr a"
    and "list_all benign (whileDestroying env @ whileInitializing env)"
  shows "settled a"
proof -
  obtain acc where acc: "Map_get (accounts s) k = Some acc"
    using assms(1) by (cases "Map_get (accounts s) k") (auto simp: switchAccount_def)
  note sw = switchAccount_unfold [OF acc]
  show ?thesis
  proof (cases "settled acc")
    case True
    then show ?thesis using assms(1) by (simp add: sw)
  next
    case False
    let ?r = "initializeAccount k env (activate k s)"
    from False have ni: "\<not> isInitializing acc" by (simp add: settled_def)
    from assms(1) False obtain u where u: "fst ?r = Inr u"
      by (cases "fst ?r") (simp_all add: sw)
    have acc2: "Map_get (accounts (activate k s)) k = Some acc"
      using acc by (simp add: activate_facts)
    from assms(2) have b: "list_all benign (whileDestroying env)"
      "list_all benign (whileInitializing env)" by simp_all
    from initializeAccount_settles [OF acc2 ni u b] obtain a'
      where a': "Map_get (accounts (snd ?r)) k = Some a'" "settled a'" by blast
    have "a = a'" using assms(1) False u a'(1) by (simp add: sw current_account_def)
    then show ?thesis using a'(2) by simp
  qed
qed

lemma switchAccount_sessions:
  assumes "Map_get (accounts s) k = Some acc"
  shows "wired (snd (switchAccount k env s))
           = (if settled acc \<or> constructThrows env then wired s
              else wired s @ [(length (wired s), k)])"
    and "initializations (snd (switchAccount k env s))
           = (if settled acc \<or> constructThrows env then initializations s
              else initializations s @ [Initialize (length (wired s))])"
proof -
  have acc2: "Map_get (accounts (activate k s)) k = Some acc"
    using assms by (simp add: activate_facts)
  note i = sessions_initializeAccount [OF acc2, of env]
  have ni: "\<not> settled acc \<Longrightarrow> \<not> isInitializing acc" by (simp add: settled_def)
  show "wired (snd (switchAccount k env s))
           = (if settled acc \<or> constructThrows env then wired s
              else wired s @ [(length (wired s), k)])"
    using i(1) ni
    by (auto simp: switchAccount_unfold [OF assms] activate_facts wired_simps
        split: sum.split)
  show "initializations (snd (switchAccount k env s))
           = (if settled acc \<or> constructThrows env then initializations s
              else initializations s @ [Initialize (length (wired s))])"
    using i(2) ni
    by (auto simp: switchAccount_unfold [OF assms] activate_facts initializations_simps
        split: sum.split)
qed

text \<open>
  C7, as stated, fails.  With two fresh accounts, the second is switched to and the
  \<^verbatim>\<open>initialize()\<close> of its new client throws: the call throws, with the account left not
  initializing and holding the client.  The same call made again finds a client that is
  neither ready nor initializing, destroys it, and constructs and initializes a second
  one.
\<close>

theorem switchAccount_retry_counterexample:
  "calls two_accounts = [] \<and>
   fst (switchAccount ''acc_2_b'' start_fails two_accounts) = Inl InitializationFailed \<and>
   calls switch_failed = [Construct 0, Initialize 0] \<and>
   calls (snd (switchAccount ''acc_2_b'' starts switch_failed))
     = [Construct 0, Initialize 0, Destroy 0, Construct 1, Initialize 1]"
proof -
  have 1: "calls two_accounts = []" unfolding two_accounts_value by simp
  have 2: "fst (switchAccount ''acc_2_b'' start_fails two_accounts) = Inl InitializationFailed"
    unfolding two_accounts_value
    by (simp add: switchAccount_def activate_def has_account_def truthy_def
        initializeAccount_def start_fails_def saveAccountsConfig_def config_of_def to_saved_def
        update_account_def call_out_def Let_def)
  have 3: "calls switch_failed = [Construct 0, Initialize 0]"
    unfolding switch_failed_value by simp
  have 4: "calls (snd (switchAccount ''acc_2_b'' starts switch_failed))
     = [Construct 0, Initialize 0, Destroy 0, Construct 1, Initialize 1]"
    unfolding switch_failed_value
    by (simp add: switchAccount_def activate_def has_account_def truthy_def
        current_account_def initializeAccount_def starts_def saveAccountsConfig_def
        config_of_def to_saved_def update_account_def call_out_def emit_def Let_def)
  from 1 2 3 4 show ?thesis by blast
qed

text \<open>
  A first call that returns can leave the same to a second call.  With two fresh
  accounts, the second is switched to and its new client reports \<^verbatim>\<open>auth_failure\<close>
  while \<^verbatim>\<open>client.initialize()\<close> is pending: the handler clears the initializing flag,
  \<^verbatim>\<open>client.initialize()\<close> returns and so does the call, with an account that holds the
  client and is neither ready nor initializing.  The same call made again calls
  \<^verbatim>\<open>initialize()\<close> on a second client.
\<close>

lemma switchAccount_auth_failure:
  "fst (switchAccount ''acc_2_b'' auth_fails two_accounts)
     = Inr \<lparr>acct_id = ''acc_2_b'', name = ''Account 2'', phone = None, createdAt = 2,
             client = Some 0, isReady = False, isAuthenticated = False,
             isInitializing = False, qrCode = None, hasStoredSession = False\<rparr> \<and>
   initializations (snd (switchAccount ''acc_2_b'' auth_fails two_accounts)) = [Initialize 0] \<and>
   initializations
     (snd (switchAccount ''acc_2_b'' starts
        (snd (switchAccount ''acc_2_b'' auth_fails two_accounts))))
     = [Initialize 0, Initialize 1]"
proof -
  let ?a = "\<lparr>acct_id = ''acc_2_b'', name = ''Account 2'', phone = None, createdAt = 2,
             client = Some 0, isReady = False, isAuthenticated = False,
             isInitializing = False, qrCode = None, hasStoredSession = False\<rparr>"
  let ?s1 = "snd (switchAccount ''acc_2_b'' auth_fails two_accounts)"
  have 1: "fst (switchAccount ''acc_2_b'' auth_fails two_accounts) = Inr ?a"
    unfolding two_accounts_value
    by (simp add: switchAccount_def activate_def has_account_def truthy_def
        current_account_def initializeAccount_def auth_fails_def saveAccountsConfig_def
        config_of_def to_saved_def update_account_def call_out_def emit_def Let_def
        deliver_def on_auth_failure_def)
  obtain acc where acc: "Map_get (accounts two_accounts) ''acc_2_b'' = Some acc"
    "\<not> settled acc" "wired two_accounts = []" "initializations two_accounts = []"
    unfolding two_accounts_value by (simp add: settled_def initializations_def)
  have c: "\<not> constructThrows auth_fails" "\<not> constructThrows starts"
    by (simp_all add: auth_fails_def starts_def)
  have w: "wired ?s1 = [(0, ''acc_2_b'')]"
    using switchAccount_sessions(1) [OF acc(1), of auth_fails] acc c by simp
  have 2: "initializations ?s1 = [Initialize 0]"
    using switchAccount_sessions(2) [OF acc(1), of auth_fails] acc c by simp
  have a: "Map_get (accounts ?s1) ''acc_2_b'' = Some ?a"
    using switchAccount_returns(1) [OF 1] .
  have "\<not> settled ?a" by (simp add: settled_def)
  then have 3: "initializations (snd (switchAccount ''acc_2_b'' starts ?s1))
      = [Initialize 0, Initialize 1]"
    using switchAccount_sessions(2) [OF a, of starts] c w 2 by simp
  from 1 2 3 show ?thesis by blast
qed

text \<open>
  C7, amended.  A \<^verbatim>\<open>switchAccount\<close> call on an account that is initializing, or that
  has a client and is ready, calls \<^verbatim>\<open>initialize()\<close> on no client and wires none; on any
  other account it wires one new client and calls \<^verbatim>\<open>initialize()\<close> on it, once, unless
  \<^verbatim>\<open>new Client\<close> throws, and then it wires and initializes none.  When a call has
  returned an account that is initializing, or has a client and is ready, the same call
  made again, whatever the library would do on a start, returns the same account and
  changes nothing in the manager but for the \<^verbatim>\<open>account_switched\<close> event it emits.  A
  call that returns has returned such an account when nothing ran during its waits on the
  library but timers and events of clients other than \<^verbatim>\<open>auth_failure\<close> and
  \<^verbatim>\<open>disconnected\<close>.  \<^verbatim>\<open>initializeAccount\<close> on an account that is initializing returns at
  once and leaves the manager as it is.
\<close>

theorem switchAccount_twice:
  "(fst (switchAccount k env s) = Inr a \<and> settled a \<longrightarrow>
      switchAccount k env' (snd (switchAccount k env s))
        = (Inr a, emit (AccountSwitched k) (snd (switchAccount k env s)))) \<and>
   (fst (switchAccount k env s) = Inr a \<and>
    list_all benign (whileDestroying env @ whileInitializing env) \<longrightarrow> settled a) \<and>
   (Map_get (accounts s) k = Some acc \<longrightarrow>
      wired (snd (switchAccount k env s))
        = (if settled acc \<or> constructThrows env then wired s
           else wired s @ [(length (wired s), k)]) \<and>
      initializations (snd (switchAccount k env s))
        = (if settled acc \<or> constructThrows env then initializations s
           else initializations s @ [Initialize (length (wired s))])) \<and>
   (Map_get (accounts s) k = Some acc \<and> isInitializing acc \<longrightarrow>
      initializeAccount k env s = (Inr (), s))"
proof (intro conjI impI)
  assume h: "fst (switchAccount k env s) = Inr a \<and> settled a"
  then have r: "fst (switchAccount k env s) = Inr a" and st: "settled a" by simp_all
  show "switchAccount k env' (snd (switchAccount k env s))
        = (Inr a, emit (AccountSwitched k) (snd (switchAccount k env s)))"
    using switchAccount_returns [OF r] st by (intro switchAccount_settled)
next
  assume "fst (switchAccount k env s) = Inr a \<and>
    list_all benign (whileDestroying env @ whileInitializing env)"
  then show "settled a" using switchAccount_benign by blast
next
  assume "Map_get (accounts s) k = Some acc"
  then show "wired (snd (switchAccount k env s))
        = (if settled acc \<or> constructThrows env then wired s
           else wired s @ [(length (wired s), k)])"
    by (rule switchAccount_sessions(1))
next
  assume "Map_get (accounts s) k = Some acc"
  then show "initializations (snd (switchAccount k env s))
        = (if settled acc \<or> constructThrows env then initializations s
           else initializations s @ [Initialize (length (wired s))])"
    by (rule switchAccount_sessions(2))
next
  assume "Map_get (accounts s) k = Some acc \<and> isInitializing acc"
  then show "initializeAccount k env s = (Inr (), s)"
    by (simp add: initializeAccount_noop)
qed

theorem switchAccount_twice_witness:
  "fst (switchAccount ''acc_2_b'' scans two_accounts)
     = Inr \<lparr>acct_id = ''acc_2_b'', name = ''Account 2'', phone = None, createdAt = 2,
             client = Some 0, isReady = False, isAuthenticated = False,
             isInitializing = True, qrCode = Some ''2@qr'', hasStoredSession = False\<rparr> \<and>
   list_all benign (whileDestroying scans @ whileInitializing scans) \<and>
   settled \<lparr>acct_id = ''acc_2_b'', name = ''Account 2'', phone = None, createdAt = 2,
             client = Some 0, isReady = False, isAuthenticated = False,
             isInitializing = True, qrCode = Some ''2@qr'', hasStoredSession = False\<rparr> \<and>
   switchAccount ''acc_2_b'' start_fails (snd (switchAccount ''acc_2_b'' scans two_accounts))
     = (Inr \<lparr>acct_id = ''acc_2_b'', name = ''Account 2'', phone = None, createdAt = 2,
              client = Some 0, isReady = False, isAuthenticated = False,
              isInitializing = True, qrCode = Some ''2@qr'', hasStoredSession = False\<rparr>,
        emit (AccountSwitched ''acc_2_b'') (snd (switchAccount ''acc_2_b'' scans two_accounts))) \<and>
   Map_get (accounts two_accounts) ''acc_2_b''
     = Some \<lparr>acct_id = ''acc_2_b'', name = ''Account 2'', phone = None, createdAt = 2,
              client = None, isReady = False, isAuthenticated = False,
              isInitializing = False, qrCode = None, hasStoredSession = False\<rparr> \<and>
   wired (snd (switchAccount ''acc_2_b'' scans two_accounts)) = [(0, ''acc_2_b'')] \<and>
   initializations (snd (switchAccount ''acc_2_b'' scans two_accounts)) = [Initialize 0] \<and>
   map_option isInitializing (Map_get (accounts running_1) ''acc_1_a'') = Some True \<and>
   initializeAccount ''acc_1_a'' start_fails running_1 = (Inr (), running_1)"
proof -
  let ?a = "\<lparr>acct_id = ''acc_2_b'', name = ''Account 2'', phone = None, createdAt = 2,
             client = Some 0, isReady = False, isAuthenticated = False,
             isInitializing = True, qrCode = Some ''2@qr'', hasStoredSession = False\<rparr>"
  let ?acc = "\<lparr>acct_id = ''acc_2_b'', name = ''Account 2'', phone = None, createdAt = 2,
              client = None, isReady = False, isAuthenticated = False,
              isInitializing = False, qrCode = None, hasStoredSession = False\<rparr>"
  have 1: "fst (switchAccount ''acc_2_b'' scans two_accounts) = Inr ?a"
    unfolding two_accounts_value
    by (simp add: switchAccount_def activate_def has_account_def truthy_def
        current_account_def initializeAccount_def scans_def saveAccountsConfig_def
        config_of_def to_saved_def update_account_def call_out_def emit_def Let_def
        deliver_def on_qr_def)
  have 2: "list_all benign (whileDestroying scans @ whileInitializing scans)"
    by (simp add: scans_def)
  have 3: "Map_get (accounts two_accounts) ''acc_2_b'' = Some ?acc"
    "wired two_accounts = []" "initializations two_accounts = []"
    unfolding two_accounts_value by (simp_all add: initializations_def)
  have 4: "\<not> settled ?acc" "\<not> constructThrows scans"
    by (simp_all add: settled_def scans_def)
  obtain b where b: "Map_get (accounts running_1) ''acc_1_a'' = Some b" "isInitializing b"
    unfolding running_1_value by simp
  show ?thesis
    using switchAccount_twice [of "''acc_2_b''" scans two_accounts ?a start_fails ?acc]
      switchAccount_twice [of "''acc_1_a''" start_fails running_1 _ start_fails b] 1 2 3 4 b
    by simp
qed

subsection \<open>The readiness monitor\<close>

lemma reschedule_quiet:
  "accounts (reschedule k n s) = accounts s \<and> emitted (reschedule k n s) = emitted s \<and>
   calls (reschedule k n s) = calls s"
  by (simp add: reschedule_def setTimeout_def)

lemma checkAndSetReady_failing:
  assumes "\<forall>h. \<not> probe_succeeds (view h)"
  shows "accounts (checkAndSetReady k n view s) = accounts s \<and>
     emitted (checkAndSetReady k n view s) = emitted s"
proof (cases "Map_get (accounts s) k")
  case None
  then show ?thesis by (simp add: checkAndSetReady_def)
next
  case (Some acc)
  show ?thesis
  proof (cases "client acc")
    case None
    with Some show ?thesis by (simp add: checkAndSetReady_def reschedule_quiet)
  next
    case (Some h)
    from assms have nf: "\<not> probe_succeeds (view h)" by simp
    show ?thesis
    proof (cases "pupPage (view h) = PageOpen \<and> hasGetChats (view h)")
      case False
      with \<open>Map_get (accounts s) k = Some acc\<close> Some show ?thesis
        by (cases "pupPage (view h)") (auto simp: checkAndSetReady_def reschedule_quiet)
    next
      case True
      have q: "accounts (reschedule k n (call_out (GetChats h) s)) = accounts s \<and>
          emitted (reschedule k n (call_out (GetChats h) s)) = emitted s"
        by (simp add: reschedule_quiet call_out_def)
      show ?thesis
      proof (cases "returns_array (fetch (view h))")
        case False
        with True \<open>Map_get (accounts s) k = Some acc\<close> Some q show ?thesis
          by (cases "fetch (view h)")
            (auto simp: checkAndSetReady_def Let_def returns_array_def)
      next
        case ra: True
        with nf True have "info (view h) = InfoThrows" by (simp add: probe_succeeds_def)
        with ra True \<open>Map_get (accounts s) k = Some acc\<close> Some q show ?thesis
          by (cases "fetch (view h)")
            (auto simp: checkAndSetReady_def Let_def returns_array_def)
      qed
    qed
  qed
qed

lemma checkAndSetReady_calls:
  "length (calls (checkAndSetReady k n view s)) \<le> Suc (length (calls s))"
  by (simp add: checkAndSetReady_def Let_def reschedule_def setTimeout_def mark_ready_def
      emit_def call_out_def update_account_def saveAccountsConfig_def
      split: option.split page.split fetch.split info.split)

lemma run_checks_failing:
  assumes "\<forall>n h. \<not> probe_succeeds (views n h)"
  shows "accounts (run_checks k n views s) = accounts s \<and>
     emitted (run_checks k n views s) = emitted s"
  using assms
proof (induction k n views s rule: run_checks.induct)
  case (1 k n views s)
  let ?s' = "checkAndSetReady k n (views n) s"
  have one: "accounts ?s' = accounts s \<and> emitted ?s' = emitted s"
    using "1.prems" by (intro checkAndSetReady_failing) simp
  show ?case
  proof (cases "timers ?s' = timers s @ [(5000, CheckReady k (n + 1))]")
    case True
    then have "run_checks k n views s = run_checks k (n + 1) views (?s'\<lparr>timers := timers s\<rparr>)"
      by (subst run_checks.simps) (simp add: Let_def)
    moreover have "accounts (run_checks k (n + 1) views (?s'\<lparr>timers := timers s\<rparr>))
        = accounts (?s'\<lparr>timers := timers s\<rparr>) \<and>
      emitted (run_checks k (n + 1) views (?s'\<lparr>timers := timers s\<rparr>))
        = emitted (?s'\<lparr>timers := timers s\<rparr>)"
      using True "1.prems" by (intro "1.IH") simp_all
    ultimately show ?thesis using one by simp
  next
    case False
    then have "run_checks k n views s = ?s'"
      by (subst run_checks.simps) (simp add: Let_def)
    then show ?thesis using one by simp
  qed
qed

lemma run_checks_calls:
  "length (calls (run_checks k n views s)) \<le> length (calls s) + max 1 (Suc maxRetries - n)"
proof (induction k n views s rule: run_checks.induct)
  case (1 k n views s)
  let ?s' = "checkAndSetReady k n (views n) s"
  have one: "length (calls ?s') \<le> Suc (length (calls s))" by (rule checkAndSetReady_calls)
  show ?case
  proof (cases "timers ?s' = timers s @ [(5000, CheckReady k (n + 1))]")
    case True
    then have n: "n < maxRetries" using checkAndSetReady_timers [of k n "views n" s] by auto
    from True have "run_checks k n views s = run_checks k (n + 1) views (?s'\<lparr>timers := timers s\<rparr>)"
      by (subst run_checks.simps) (simp add: Let_def)
    moreover have "length (calls (run_checks k (n + 1) views (?s'\<lparr>timers := timers s\<rparr>)))
        \<le> length (calls (?s'\<lparr>timers := timers s\<rparr>)) + max 1 (Suc maxRetries - (n + 1))"
      using True by (intro "1.IH") simp_all
    ultimately show ?thesis using one n by simp
  next
    case False
    then have "run_checks k n views s = ?s'"
      by (subst run_checks.simps) (simp add: Let_def)
    then show ?thesis using one by simp
  qed
qed


lemma checkAndSetReady_throwing:
  assumes "Map_get (accounts s) k = Some acc" "\<not> isReady acc" "client acc = Some h"
    and "probe_throws (view h)"
  shows "checkAndSetReady k n view s = reschedule k n (call_out (GetChats h) s)"
  using assms by (simp add: checkAndSetReady_def probe_throws_def Let_def)

lemma run_checks_exhaust:
  assumes "Map_get (accounts s) k = Some acc" "\<not> isReady acc" "client acc = Some h"
    and "\<forall>n. probe_throws (views n h)" and "n \<le> maxRetries"
  shows "calls (run_checks k n views s) = calls s @ replicate (Suc maxRetries - n) (GetChats h) \<and>
     timers (run_checks k n views s) = timers s"
  using assms
proof (induction k n views s rule: run_checks.induct)
  case (1 k n views s)
  let ?s' = "checkAndSetReady k n (views n) s"
  have pass: "?s' = reschedule k n (call_out (GetChats h) s)"
    using "1.prems" by (intro checkAndSetReady_throwing) simp_all
  show ?case
  proof (cases "n < maxRetries")
    case True
    then have t: "timers ?s' = timers s @ [(5000, CheckReady k (n + 1))]"
      unfolding pass by (simp add: reschedule_def setTimeout_def call_out_def)
    have rs: "(?s')\<lparr>timers := timers s\<rparr> = call_out (GetChats h) s"
      unfolding pass using True by (simp add: reschedule_def setTimeout_def call_out_def)
    have step: "run_checks k n views s = run_checks k (n + 1) views (call_out (GetChats h) s)"
      using t rs by (subst run_checks.simps) (simp add: Let_def)
    have "calls (run_checks k (n + 1) views ((?s')\<lparr>timers := timers s\<rparr>))
        = calls ((?s')\<lparr>timers := timers s\<rparr>) @ replicate (Suc maxRetries - (n + 1)) (GetChats h) \<and>
      timers (run_checks k (n + 1) views ((?s')\<lparr>timers := timers s\<rparr>))
        = timers ((?s')\<lparr>timers := timers s\<rparr>)"
      by (rule "1.IH" [OF refl t])
        (use "1.prems" True in \<open>simp_all add: rs call_out_def\<close>)
    then have "calls (run_checks k n views s)
        = (calls s @ [GetChats h]) @ replicate (maxRetries - n) (GetChats h) \<and>
      timers (run_checks k n views s) = timers s"
      unfolding step rs by (simp add: call_out_def)
    moreover have "Suc maxRetries - n = Suc (maxRetries - n)" using True by simp
    ultimately show ?thesis by simp
  next
    case False
    with "1.prems" have n: "n = maxRetries" by simp
    have s': "?s' = call_out (GetChats h) s"
      unfolding pass using False by (simp add: reschedule_def)
    then have "timers ?s' \<noteq> timers s @ [(5000, CheckReady k (n + 1))]"
      by (simp add: call_out_def)
    then have "run_checks k n views s = ?s'"
      by (subst run_checks.simps) (simp add: Let_def)
    then show ?thesis unfolding s' using n by (simp add: call_out_def)
  qed
qed

subsection \<open>The readiness check of the single-account client\<close>

lemma verifyStores_ready:
  assumes "wc_client c" "wc_isAuthenticated c" "\<not> wc_isReady c"
  shows "wc_isReady (snd (verifyStores a probes c)) \<and>
     wc_emitted (snd (verifyStores a probes c)) = wc_emitted c @ [''ready''] \<and>
     fst (verifyStores a probes c) \<le> max (Suc a) maxAttempts \<and>
     (\<exists>m. wc_waits (snd (verifyStores a probes c)) = wc_waits c @ replicate m checkInterval
          \<and> a + Suc m = fst (verifyStores a probes c))"
  using assms
proof (induction a probes c rule: verifyStores.induct)
  case (1 attempts probes c)
  let ?c' = "c\<lparr>wc_waits := wc_waits c @ [checkInterval]\<rparr>"
  have c': "wc_client ?c'" "wc_isAuthenticated ?c'" "\<not> wc_isReady ?c'"
    using "1.prems" by simp_all
  show ?case
  proof (cases "probe_ok (probes (attempts + 1)) \<or> \<not> attempts + 1 < maxAttempts")
    case True
    then have "verifyStores attempts probes c = (attempts + 1, set_ready c)"
      using "1.prems"
      by (subst verifyStores.simps) (auto simp: probe_ok_def split: probe.splits)
    then show ?thesis by (auto simp: set_ready_def intro: exI [of _ 0])
  next
    case False
    then have eq: "verifyStores attempts probes c = verifyStores (attempts + 1) probes ?c'"
      using "1.prems"
      by (subst verifyStores.simps) (auto simp: probe_ok_def split: probe.splits)
    have IH: "wc_isReady (snd (verifyStores (attempts + 1) probes ?c')) \<and>
     wc_emitted (snd (verifyStores (attempts + 1) probes ?c')) = wc_emitted ?c' @ [''ready''] \<and>
     fst (verifyStores (attempts + 1) probes ?c') \<le> max (Suc (attempts + 1)) maxAttempts \<and>
     (\<exists>m. wc_waits (snd (verifyStores (attempts + 1) probes ?c'))
            = wc_waits ?c' @ replicate m checkInterval
          \<and> attempts + 1 + Suc m = fst (verifyStores (attempts + 1) probes ?c'))"
    proof (cases "probes (attempts + 1)")
      case ProbeThrowsUpdate
      with False "1.prems" c' show ?thesis by (intro "1.IH"(1)) simp_all
    next
      case ProbeThrows
      with False "1.prems" c' show ?thesis by (intro "1.IH"(2)) simp_all
    next
      case (ProbeReturns x)
      with False "1.prems" c' show ?thesis by (intro "1.IH"(3)) (auto simp: probe_ok_def)
    qed
    then obtain m where m: "wc_waits (snd (verifyStores (attempts + 1) probes ?c'))
            = wc_waits ?c' @ replicate m checkInterval"
          "attempts + 1 + Suc m = fst (verifyStores (attempts + 1) probes ?c')" by blast
    have w1: "wc_waits (snd (verifyStores attempts probes c))
        = wc_waits c @ replicate (Suc m) checkInterval"
      unfolding eq m(1) by simp
    have w2: "attempts + Suc (Suc m) = fst (verifyStores attempts probes c)"
      unfolding eq using m(2) by simp
    have r1: "wc_isReady (snd (verifyStores attempts probes c))"
      unfolding eq using IH by simp
    have r2: "wc_emitted (snd (verifyStores attempts probes c)) = wc_emitted c @ [''ready'']"
      unfolding eq using IH by simp
    have r3: "fst (verifyStores attempts probes c) \<le> max (Suc attempts) maxAttempts"
      unfolding eq using IH False by auto
    from w1 w2 r1 r2 r3 show ?thesis by blast
  qed
qed


lemma verifyStores_exhaust:
  assumes "wc_client c" "wc_isAuthenticated c" "\<not> wc_isReady c"
    and "\<forall>n. \<not> probe_ok (probes n)" and "a < maxAttempts"
  shows "fst (verifyStores a probes c) = maxAttempts"
  using assms
proof (induction a probes c rule: verifyStores.induct)
  case (1 attempts probes c)
  let ?c' = "c\<lparr>wc_waits := wc_waits c @ [checkInterval]\<rparr>"
  from "1.prems" have np: "\<not> probe_ok (probes (attempts + 1))" by simp
  show ?case
  proof (cases "attempts + 1 < maxAttempts")
    case True
    then have eq: "verifyStores attempts probes c = verifyStores (attempts + 1) probes ?c'"
      using "1.prems" np
      by (subst verifyStores.simps) (auto simp: probe_ok_def split: probe.splits)
    have "fst (verifyStores (attempts + 1) probes ?c') = maxAttempts"
    proof (cases "probes (attempts + 1)")
      case ProbeThrowsUpdate
      with True "1.prems" show ?thesis by (intro "1.IH"(1)) simp_all
    next
      case ProbeThrows
      with True "1.prems" show ?thesis by (intro "1.IH"(2)) simp_all
    next
      case (ProbeReturns x)
      with np have "\<not> (is_truthy x \<and> is_array x)" by (simp add: probe_ok_def)
      with ProbeReturns True "1.prems" show ?thesis by (intro "1.IH"(3)) auto
    qed
    then show ?thesis unfolding eq .
  next
    case False
    then have "verifyStores attempts probes c = (attempts + 1, set_ready c)"
      using "1.prems"
      by (subst verifyStores.simps) (auto simp: probe_ok_def split: probe.splits)
    then show ?thesis using False "1.prems" by simp
  qed
qed

text \<open>
  C5, as stated, fails.  The first account is authenticated and not ready, with client 0
  whose fetch throws at every pass.  The loop of \<^verbatim>\<open>checkAndSetReady\<close>, started at
  retry 0, makes 61 test fetches and stops with no timer left: the account is not ready
  and no Ready event has been emitted.
\<close>

theorem readiness_monitor_counterexample:
  "map_option isReady (Map_get (accounts authenticated_1) ''acc_1_a'') = Some False \<and>
   map_option client (Map_get (accounts authenticated_1) ''acc_1_a'') = Some (Some 0) \<and>
   fetch (never_loads 60 0) = FetchThrows \<and>
   calls (run_checks ''acc_1_a'' 0 never_loads authenticated_1)
     = calls authenticated_1 @ replicate 61 (GetChats 0) \<and>
   timers (run_checks ''acc_1_a'' 0 never_loads authenticated_1) = timers authenticated_1 \<and>
   map_option isReady
     (Map_get (accounts (run_checks ''acc_1_a'' 0 never_loads authenticated_1)) ''acc_1_a'')
     = Some False \<and>
   count_list (emitted (run_checks ''acc_1_a'' 0 never_loads authenticated_1)) (Ready ''acc_1_a'')
     = 0"
proof -
  obtain a where a: "Map_get (accounts authenticated_1) ''acc_1_a'' = Some a" "\<not> isReady a"
    "client a = Some 0"
    unfolding authenticated_1_value by simp
  have t: "\<forall>n. probe_throws (never_loads n 0)"
    by (simp add: probe_throws_def never_loads_def healthy_def)
  have f: "\<forall>n h. \<not> probe_succeeds (never_loads n h)"
    by (simp add: probe_succeeds_def never_loads_def healthy_def returns_array_def)
  have e: "count_list (emitted authenticated_1) (Ready ''acc_1_a'') = 0"
    unfolding authenticated_1_value by simp
  have "calls (run_checks ''acc_1_a'' 0 never_loads authenticated_1)
     = calls authenticated_1 @ replicate (Suc maxRetries - 0) (GetChats 0) \<and>
     timers (run_checks ''acc_1_a'' 0 never_loads authenticated_1) = timers authenticated_1"
    using a t by (intro run_checks_exhaust) simp_all
  moreover have "accounts (run_checks ''acc_1_a'' 0 never_loads authenticated_1)
      = accounts authenticated_1 \<and>
    emitted (run_checks ''acc_1_a'' 0 never_loads authenticated_1) = emitted authenticated_1"
    using f by (rule run_checks_failing)
  ultimately show ?thesis
    using a e by (simp add: maxRetries_def never_loads_def)
qed

text \<open>
  C5, amended.  \<^verbatim>\<open>checkAndSetReady\<close> sets at most one timer per pass, of 5000 ms and
  for the next retry count, and only while the retry count is below 60; so its loop,
  started at retry 0, makes at most 61 passes, each with at most one test fetch.  When no
  pass has a successful probe the loop ends with the accounts and the emitted events as
  they were: the account is left not ready and no Ready event is emitted; when the fetch
  throws at every pass there are exactly 61 fetches.  Promotion on exhaustion is what
  \<^verbatim>\<open>startReadinessCheck\<close> of the single-account client does: after a first wait of
  15000 ms it makes at most 10 attempts, 5000 ms apart, and ends ready with the
  \<^verbatim>\<open>ready\<close> event emitted once, after exactly 10 attempts when none succeeds.
\<close>

theorem readiness_monitor_bounded:
  "(timers (checkAndSetReady k n view s) = timers s \<or>
      (n < 60 \<and>
       timers (checkAndSetReady k n view s) = timers s @ [(5000, CheckReady k (n + 1))])) \<and>
   length (calls (run_checks k 0 views s)) \<le> length (calls s) + 61 \<and>
   ((\<forall>n h. \<not> probe_succeeds (views n h)) \<longrightarrow>
      accounts (run_checks k 0 views s) = accounts s \<and>
      emitted (run_checks k 0 views s) = emitted s) \<and>
   (Map_get (accounts s) k = Some acc \<and> \<not> isReady acc \<and> client acc = Some h
      \<and> (\<forall>n. probe_throws (views n h)) \<longrightarrow>
      calls (run_checks k 0 views s) = calls s @ replicate 61 (GetChats h) \<and>
      timers (run_checks k 0 views s) = timers s) \<and>
   (wc_client c \<and> wc_isAuthenticated c \<and> \<not> wc_isReady c \<longrightarrow>
      wc_isReady (snd (startReadinessCheck probes c)) \<and>
      wc_emitted (snd (startReadinessCheck probes c)) = wc_emitted c @ [''ready''] \<and>
      fst (startReadinessCheck probes c) \<le> 10 \<and>
      wc_waits (snd (startReadinessCheck probes c))
        = wc_waits c @ 15000 # replicate (fst (startReadinessCheck probes c) - 1) 5000 \<and>
      ((\<forall>n. \<not> probe_ok (probes n)) \<longrightarrow> fst (startReadinessCheck probes c) = 10))"
proof (intro conjI impI)
  show "timers (checkAndSetReady k n view s) = timers s \<or>
      (n < 60 \<and>
       timers (checkAndSetReady k n view s) = timers s @ [(5000, CheckReady k (n + 1))])"
    using checkAndSetReady_timers [of k n view s] by (simp add: maxRetries_def)
  show "length (calls (run_checks k 0 views s)) \<le> length (calls s) + 61"
    using run_checks_calls [of k 0 views s] by (simp add: maxRetries_def)
  show "accounts (run_checks k 0 views s) = accounts s"
    if "\<forall>n h. \<not> probe_succeeds (views n h)"
    using run_checks_failing [OF that] by simp
  show "emitted (run_checks k 0 views s) = emitted s"
    if "\<forall>n h. \<not> probe_succeeds (views n h)"
    using run_checks_failing [OF that] by simp
next
  assume h: "Map_get (accounts s) k = Some acc \<and> \<not> isReady acc \<and> client acc = Some h
      \<and> (\<forall>n. probe_throws (views n h))"
  then have "calls (run_checks k 0 views s)
      = calls s @ replicate (Suc maxRetries - 0) (GetChats h) \<and>
     timers (run_checks k 0 views s) = timers s"
    using run_checks_exhaust [of s k acc h views 0] by blast
  then show "calls (run_checks k 0 views s) = calls s @ replicate 61 (GetChats h)"
    and "timers (run_checks k 0 views s) = timers s"
    by (simp_all add: maxRetries_def)
next
  assume c: "wc_client c \<and> wc_isAuthenticated c \<and> \<not> wc_isReady c"
  let ?c = "c\<lparr>wc_waits := wc_waits c @ [15000]\<rparr>"
  have c': "wc_client ?c" "wc_isAuthenticated ?c" "\<not> wc_isReady ?c" using c by simp_all
  note r = verifyStores_ready [OF c', of 0 probes]
  from r obtain m where m: "wc_waits (snd (verifyStores 0 probes ?c))
      = wc_waits ?c @ replicate m checkInterval" "0 + Suc m = fst (verifyStores 0 probes ?c)"
    by blast
  show "wc_isReady (snd (startReadinessCheck probes c))"
    using r by (simp add: startReadinessCheck_def)
  show "wc_emitted (snd (startReadinessCheck probes c)) = wc_emitted c @ [''ready'']"
    using r by (simp add: startReadinessCheck_def)
  show "fst (startReadinessCheck probes c) \<le> 10"
    using r by (simp add: startReadinessCheck_def maxAttempts_def)
  have "m = fst (verifyStores 0 probes ?c) - 1" using m(2) by simp
  then show "wc_waits (snd (startReadinessCheck probes c))
        = wc_waits c @ 15000 # replicate (fst (startReadinessCheck probes c) - 1) 5000"
    using m(1) by (simp add: startReadinessCheck_def checkInterval_def)
  show "fst (startReadinessCheck probes c) = 10" if "\<forall>n. \<not> probe_ok (probes n)"
    using verifyStores_exhaust [OF c' that, of 0]
    by (simp add: startReadinessCheck_def maxAttempts_def)
qed

theorem readiness_monitor_bounded_witness:
  "map_option isReady (Map_get (accounts authenticated_1) ''acc_1_a'') = Some False \<and>
   map_option client (Map_get (accounts authenticated_1) ''acc_1_a'') = Some (Some 0) \<and>
   probe_throws (never_loads 0 0) \<and> \<not> probe_succeeds (never_loads 0 0) \<and>
   emitted (run_checks ''acc_1_a'' 0 never_loads authenticated_1) = emitted authenticated_1 \<and>
   calls (run_checks ''acc_1_a'' 0 never_loads authenticated_1)
     = calls authenticated_1 @ replicate 61 (GetChats 0) \<and>
   wc_client paired \<and> wc_isAuthenticated paired \<and> \<not> wc_isReady paired \<and>
   \<not> probe_ok (stores_loading 1) \<and>
   fst (startReadinessCheck stores_loading paired) = 10 \<and>
   wc_isReady (snd (startReadinessCheck stores_loading paired))"
proof -
  obtain a where a: "Map_get (accounts authenticated_1) ''acc_1_a'' = Some a" "\<not> isReady a"
    "client a = Some 0"
    unfolding authenticated_1_value by simp
  have t: "\<forall>n. probe_throws (never_loads n 0)"
    by (simp add: probe_throws_def never_loads_def healthy_def)
  have f: "\<forall>n h. \<not> probe_succeeds (never_loads n h)"
    by (simp add: probe_succeeds_def never_loads_def healthy_def returns_array_def)
  have p: "wc_client paired" "wc_isAuthenticated paired" "\<not> wc_isReady paired"
    by (simp_all add: paired_def)
  have l: "\<forall>n. \<not> probe_ok (stores_loading n)"
    by (simp add: probe_ok_def stores_loading_def)
  show ?thesis
    using readiness_monitor_bounded [of "''acc_1_a''" 0 "never_loads 0" authenticated_1
        never_loads a 0 paired stores_loading] a t f p l
    by simp
qed

text \<open>
  C4 fails on the code.  One account is initialized once (one client is constructed and
  initialized).  The library reports \<^verbatim>\<open>authenticated\<close> and then \<^verbatim>\<open>ready\<close>, whose handler
  starts its wait of ten seconds; a message comes in, and its handler, finding the
  account authenticated and not ready, marks it ready and emits Ready; the ten seconds
  pass and the \<^verbatim>\<open>ready\<close> handler, which does not look at \<^verbatim>\<open>isReady\<close>, emits Ready
  again.
\<close>

theorem ready_emitted_twice:
  "calls settled_1 = [Construct 0, Initialize 0] \<and>
   emitted authenticated_1
     = [AccountCreated ''acc_1_a'' ''Sales'', AccountCreated ''acc_2_b'' ''Account 2'',
        Authenticated ''acc_1_a''] \<and>
   timers signalled_1 = [(20000, CheckReady ''acc_1_a'' 0), (10000, ReadySettle ''acc_1_a'')] \<and>
   emitted messaged_1 = emitted authenticated_1 @ [Ready ''acc_1_a'', Message ''acc_1_a''] \<and>
   emitted settled_1 = emitted messaged_1 @ [Ready ''acc_1_a''] \<and>
   count_list (emitted settled_1) (Ready ''acc_1_a'') = 2"
proof -
  have s: "settled_1 = mark_ready ''acc_1_a''
      (messaged_1\<lparr>timers := [(20000, CheckReady ''acc_1_a'' 0)]\<rparr>)"
    unfolding settled_1_def by (simp add: fire_def Let_def messaged_1_value)
  have 1: "calls settled_1 = [Construct 0, Initialize 0]"
    unfolding s by (simp add: mark_ready_def emit_def update_account_def messaged_1_value)
  have 2: "emitted authenticated_1
     = [AccountCreated ''acc_1_a'' ''Sales'', AccountCreated ''acc_2_b'' ''Account 2'',
        Authenticated ''acc_1_a'']"
    unfolding authenticated_1_value by simp
  have 3: "timers signalled_1
     = [(20000, CheckReady ''acc_1_a'' 0), (10000, ReadySettle ''acc_1_a'')]"
    unfolding signalled_1_value by simp
  have 4: "emitted messaged_1 = emitted authenticated_1 @ [Ready ''acc_1_a'', Message ''acc_1_a'']"
    unfolding 2 unfolding messaged_1_value by simp
  have 5: "emitted settled_1 = emitted messaged_1 @ [Ready ''acc_1_a'']"
    unfolding s by (simp add: mark_ready_def emit_def update_account_def)
  have 6: "count_list (emitted settled_1) (Ready ''acc_1_a'') = 2"
    unfolding 5 4 2 by simp
  from 1 2 3 4 5 6 show ?thesis by blast
qed


end
